theory Spec2Isabelle
  imports Complex_Main "HOL-Library.Multiset"
begin

section \<open>Values\<close>

text \<open>
  A Python \<^verbatim>\<open>float\<close> and an SQLite REAL are IEEE doubles. The model keeps the three
  special values apart and names a finite double by the rational it is. It does no
  arithmetic on these values itself: every operation that yields a double, and so rounds in
  binary, is an operation of a library and is taken as a parameter below.
\<close>

datatype flt = Fin rat | PInf | NInf | NaN

text \<open>What a cell of a row dictionary can hold in \<^verbatim>\<open>ingest\<close>.\<close>

datatype pyval = PyNone | PyStr string | PyInt int | PyFloat flt

text \<open>The storage classes of SQLite that the pipeline can produce.\<close>

datatype sqlval = SqlNull | SqlInt int | SqlReal flt | SqlText string

text \<open>The exceptions that can leave \<^verbatim>\<open>ingest\<close>.\<close>

datatype error =
    ValueError
  | OverflowError
  | TypeError
  | DatatypeMismatch
  | ForeignKeyFailed

text \<open>
  Text-to-number conversions and floating-point arithmetic are library code, not code of
  the repository; they are taken as parameters:
  \<^item> \<open>py_float_str\<close> is Python's \<^verbatim>\<open>float(s)\<close> on a string, \<open>None\<close> where it raises
    \<^verbatim>\<open>ValueError\<close>;
  \<^item> \<open>sql_numeric\<close> is the conversion SQLite's numeric affinity applies to a text that is
    a well-formed numeric literal as a whole: the integer or the double it stores, \<open>None\<close>
    where the text is not such a literal;
  \<^item> \<open>sql_prefix\<close> is the double SQLite's arithmetic reads a text as: that of its longest
    numeric prefix, 0 when there is none;
  \<^item> \<open>sql_num_text\<close> is the text SQLite renders a number as, when a number is stored in a
    column of TEXT affinity;
  \<^item> \<open>sql_int_real\<close> is the double SQLite converts a 64-bit integer to;
  \<^item> \<open>sql_sum_real\<close> is the floating-point total that \<^verbatim>\<open>SUM\<close> accumulates over the
    values of a group, in the order of the rows, when they are not all integers;
  \<^item> \<open>sql_round_real\<close> is \<^verbatim>\<open>ROUND(X, 2)\<close> on a double;
  \<^item> \<open>sql_div_real\<close> is the division of doubles.
\<close>

record builtins =
  py_float_str :: "string \<Rightarrow> flt option"
  sql_numeric :: "string \<Rightarrow> sqlval option"
  sql_prefix :: "string \<Rightarrow> flt"
  sql_num_text :: "sqlval \<Rightarrow> string"
  sql_int_real :: "int \<Rightarrow> flt"
  sql_sum_real :: "sqlval list \<Rightarrow> flt"
  sql_round_real :: "flt \<Rightarrow> flt"
  sql_div_real :: "flt \<Rightarrow> flt \<Rightarrow> flt"

type_synonym pydict = "string \<rightharpoonup> pyval"

section \<open>Type conversions for numeric fields\<close>

text \<open>Truth value of a cell, as \<^verbatim>\<open>if col in r and r[col]\<close> tests it.\<close>

fun truthy :: "pyval \<Rightarrow> bool" where
  "truthy PyNone = False"
| "truthy (PyStr s) = (s \<noteq> [])"
| "truthy (PyInt n) = (n \<noteq> 0)"
| "truthy (PyFloat f) = (f \<noteq> Fin 0)"

text \<open>\<^verbatim>\<open>float(v)\<close>. (A cell read from a file is a string or \<^verbatim>\<open>None\<close>, and the two
  conversion loops work on different columns, so \<^verbatim>\<open>float\<close> meets no int in a run; the
  clause for an int gives its value, which is what \<^verbatim>\<open>float\<close> returns for an int of at most
  53 bits.)\<close>

fun py_float :: "builtins \<Rightarrow> pyval \<Rightarrow> error + flt" where
  "py_float B PyNone = Inl TypeError"
| "py_float B (PyStr s) = (case py_float_str B s of None \<Rightarrow> Inl ValueError | Some f \<Rightarrow> Inr f)"
| "py_float B (PyInt n) = Inr (Fin (of_int n))"
| "py_float B (PyFloat f) = Inr f"

text \<open>Truncation towards zero.\<close>

definition trunc :: "rat \<Rightarrow> int" where
  "trunc q = (if 0 \<le> q then \<lfloor>q\<rfloor> else \<lceil>q\<rceil>)"

text \<open>\<^verbatim>\<open>int(f)\<close> on a float: an infinity raises OverflowError, a NaN raises ValueError.\<close>

fun py_int :: "flt \<Rightarrow> error + int" where
  "py_int (Fin q) = Inr (trunc q)"
| "py_int PInf = Inl OverflowError"
| "py_int NInf = Inl OverflowError"
| "py_int NaN = Inl ValueError"

definition int_cols :: "string list" where
  "int_cols = [''customer_id'', ''product_id'', ''order_id'', ''order_item_id'', ''rating'', ''quantity'']"

definition float_cols :: "string list" where
  "float_cols = [''price'', ''unit_price'', ''line_total'', ''total'']"

text \<open>
  One pass of the first inner loop: \<^verbatim>\<open>r[col] = int(float(r[col]))\<close> under
  \<^verbatim>\<open>except ValueError: pass\<close>. Any other exception leaves the loop.
\<close>

definition coerce_int :: "builtins \<Rightarrow> pydict \<Rightarrow> string \<Rightarrow> error + pydict" where
  "coerce_int B r col =
     (case r col of
        None \<Rightarrow> Inr r
      | Some v \<Rightarrow>
          if truthy v then
            (case py_float B v of
               Inl ValueError \<Rightarrow> Inr r
             | Inl e \<Rightarrow> Inl e
             | Inr f \<Rightarrow>
                 (case py_int f of
                    Inl ValueError \<Rightarrow> Inr r
                  | Inl e \<Rightarrow> Inl e
                  | Inr n \<Rightarrow> Inr (r(col \<mapsto> PyInt n))))
          else Inr r)"

text \<open>One pass of the second inner loop: \<^verbatim>\<open>r[col] = float(r[col])\<close>.\<close>

definition coerce_float :: "builtins \<Rightarrow> pydict \<Rightarrow> string \<Rightarrow> error + pydict" where
  "coerce_float B r col =
     (case r col of
        None \<Rightarrow> Inr r
      | Some v \<Rightarrow>
          if truthy v then
            (case py_float B v of
               Inl ValueError \<Rightarrow> Inr r
             | Inl e \<Rightarrow> Inl e
             | Inr f \<Rightarrow> Inr (r(col \<mapsto> PyFloat f)))
          else Inr r)"

text \<open>A \<^verbatim>\<open>for\<close> loop whose body may raise: the first exception ends it.\<close>

fun for_each :: "('s \<Rightarrow> 'a \<Rightarrow> error + 's) \<Rightarrow> 's \<Rightarrow> 'a list \<Rightarrow> error + 's" where
  "for_each f s [] = Inr s"
| "for_each f s (x # xs) = (case f s x of Inl e \<Rightarrow> Inl e | Inr s' \<Rightarrow> for_each f s' xs)"

text \<open>The body of \<^verbatim>\<open>for r in rows\<close>: both inner loops on one row.\<close>

definition coerce_row :: "builtins \<Rightarrow> pydict \<Rightarrow> error + pydict" where
  "coerce_row B r =
     (case for_each (coerce_int B) r int_cols of
        Inl e \<Rightarrow> Inl e
      | Inr r' \<Rightarrow> for_each (coerce_float B) r' float_cols)"

text \<open>The loop over the rows of one file; the rows come out in their order.\<close>

fun coerce_rows :: "builtins \<Rightarrow> pydict list \<Rightarrow> error + pydict list" where
  "coerce_rows B [] = Inr []"
| "coerce_rows B (r # rs) =
     (case coerce_row B r of
        Inl e \<Rightarrow> Inl e
      | Inr r' \<Rightarrow> (case coerce_rows B rs of Inl e \<Rightarrow> Inl e | Inr rs' \<Rightarrow> Inr (r' # rs')))"

section \<open>The store\<close>

text \<open>
  Every table of \<^verbatim>\<open>SQL_CREATE\<close> has an INTEGER PRIMARY KEY, which is the rowid: a table is
  the list of its rows in rowid order, each row paired with its key. The other columns of a
  row are the fields of a record, in the order of the DDL.
\<close>

type_synonym 'r table = "(int \<times> 'r) list"

record customer_row =
  c_name :: sqlval
  c_email :: sqlval
  c_address :: sqlval
  c_join_date :: sqlval

record product_row =
  p_name :: sqlval
  p_category :: sqlval
  p_price :: sqlval
  p_sku :: sqlval

record order_row =
  o_customer_id :: sqlval
  o_order_date :: sqlval
  o_total :: sqlval
  o_status :: sqlval

record item_row =
  i_order_id :: sqlval
  i_product_id :: sqlval
  i_quantity :: sqlval
  i_unit_price :: sqlval
  i_line_total :: sqlval

record review_row =
  v_product_id :: sqlval
  v_customer_id :: sqlval
  v_rating :: sqlval
  v_review_text :: sqlval
  v_review_date :: sqlval

record store =
  customers :: "customer_row table"
  products :: "product_row table"
  orders :: "order_row table"
  order_items :: "item_row table"
  reviews :: "review_row table"

text \<open>What \<^verbatim>\<open>create_schema\<close> leaves in a database file that did not exist.\<close>

definition empty_store :: store where
  "empty_store = \<lparr>customers = [], products = [], orders = [], order_items = [], reviews = []\<rparr>"

definition tbl_delete :: "int \<Rightarrow> 'r table \<Rightarrow> 'r table" where
  "tbl_delete k t = filter (\<lambda>p. fst p \<noteq> k) t"

definition tbl_put :: "int \<Rightarrow> 'r \<Rightarrow> 'r table \<Rightarrow> 'r table" where
  "tbl_put k r t = insort_key fst (k, r) (tbl_delete k t)"

definition has_key :: "'r table \<Rightarrow> int \<Rightarrow> bool" where
  "has_key t k = list_ex (\<lambda>p. fst p = k) t"

text \<open>The rowid SQLite gives a row inserted with a NULL key: 1 in an empty table, else one
  more than the largest. (This is SQLite's rule while the largest rowid is below
  \<open>2 ^ 63 - 1\<close>. A table that already holds that rowid gets an unused rowid picked at random
  instead; this case, which no data directory can bring about in a fresh database, is outside
  the model.)\<close>

definition next_rowid :: "'r table \<Rightarrow> int" where
  "next_rowid t = (case t of [] \<Rightarrow> 1 | p # ps \<Rightarrow> foldl max (fst p) (map fst ps) + 1)"

subsection \<open>Binding parameters and column affinity\<close>

definition int64 :: "int \<Rightarrow> bool" where
  "int64 n = (- (2 ^ 63) \<le> n \<and> n < 2 ^ 63)"

text \<open>Binding a Python value to a \<^verbatim>\<open>?\<close>: an int beyond 64 bits raises OverflowError, a
  NaN is stored as NULL.\<close>

fun bind_param :: "pyval \<Rightarrow> error + sqlval" where
  "bind_param PyNone = Inr SqlNull"
| "bind_param (PyStr s) = Inr (SqlText s)"
| "bind_param (PyInt n) = (if int64 n then Inr (SqlInt n) else Inl OverflowError)"
| "bind_param (PyFloat f) = Inr (if f = NaN then SqlNull else SqlReal f)"

fun bind_params :: "pyval list \<Rightarrow> error + sqlval list" where
  "bind_params [] = Inr []"
| "bind_params (v # vs) =
     (case bind_param v of
        Inl e \<Rightarrow> Inl e
      | Inr x \<Rightarrow> (case bind_params vs of Inl e \<Rightarrow> Inl e | Inr xs \<Rightarrow> Inr (x # xs)))"

text \<open>A double as an integer where that loses nothing, as NUMERIC affinity stores it: the
  double must be a whole number strictly between the least and the greatest 64-bit
  integer.\<close>

definition numeric_val :: "rat \<Rightarrow> sqlval" where
  "numeric_val q =
     (if of_int \<lfloor>q\<rfloor> = q \<and> - (2 ^ 63) < \<lfloor>q\<rfloor> \<and> \<lfloor>q\<rfloor> < 2 ^ 63 - 1 then SqlInt \<lfloor>q\<rfloor>
      else SqlReal (Fin q))"

fun aff_integer :: "builtins \<Rightarrow> sqlval \<Rightarrow> sqlval" where
  "aff_integer B (SqlText s) = (case sql_numeric B s of None \<Rightarrow> SqlText s | Some v \<Rightarrow> v)"
| "aff_integer B (SqlReal (Fin q)) = numeric_val q"
| "aff_integer B v = v"

text \<open>REAL affinity: as numeric affinity, with an integer turned into a double.\<close>

fun aff_real :: "builtins \<Rightarrow> sqlval \<Rightarrow> sqlval" where
  "aff_real B (SqlText s) =
     (case sql_numeric B s of
        None \<Rightarrow> SqlText s
      | Some (SqlInt n) \<Rightarrow> SqlReal (sql_int_real B n)
      | Some v \<Rightarrow> v)"
| "aff_real B (SqlInt n) = SqlReal (sql_int_real B n)"
| "aff_real B v = v"

fun aff_text :: "builtins \<Rightarrow> sqlval \<Rightarrow> sqlval" where
  "aff_text B (SqlInt n) = SqlText (sql_num_text B (SqlInt n))"
| "aff_text B (SqlReal f) = SqlText (sql_num_text B (SqlReal f))"
| "aff_text B v = v"

text \<open>The key of a row to insert: NULL asks for a fresh rowid, a value that is an integer
  after numeric conversion is the key, anything else is a datatype mismatch.\<close>

definition rowid_of :: "builtins \<Rightarrow> sqlval \<Rightarrow> error + int option" where
  "rowid_of B v =
     (case aff_integer B v of
        SqlNull \<Rightarrow> Inr None
      | SqlInt n \<Rightarrow> Inr (Some n)
      | _ \<Rightarrow> Inl DatatypeMismatch)"

text \<open>The value a named column receives from the statement's column list.\<close>

definition arg :: "string list \<Rightarrow> sqlval list \<Rightarrow> string \<Rightarrow> sqlval" where
  "arg cols vals c = (case map_of (zip cols vals) c of None \<Rightarrow> SqlNull | Some v \<Rightarrow> v)"

subsection \<open>INSERT OR REPLACE under the declared constraints\<close>

text \<open>
  \<^verbatim>\<open>ingest\<close> and \<^verbatim>\<open>create_schema\<close> both run \<^verbatim>\<open>PRAGMA foreign_keys = ON\<close>, so the
  FOREIGN KEY clauses of \<^verbatim>\<open>SQL_CREATE\<close> are enforced, at the end of each statement.
  A child value references a parent key when it is that integer; NULL references nothing and
  is always allowed.
\<close>

fun refs :: "sqlval \<Rightarrow> int \<Rightarrow> bool" where
  "refs (SqlInt n) k = (n = k)"
| "refs (SqlReal (Fin q)) k = (q = of_int k)"
| "refs v k = False"

definition fk_ok :: "sqlval \<Rightarrow> 'r table \<Rightarrow> bool" where
  "fk_ok v parent = (v = SqlNull \<or> list_ex (\<lambda>p. refs v (fst p)) parent)"

definition new_key :: "int option \<Rightarrow> 'r table \<Rightarrow> int" where
  "new_key ko t = (case ko of None \<Rightarrow> next_rowid t | Some k \<Rightarrow> k)"

text \<open>The stored row of each table, every column converted by the affinity its declared type
  gives it.\<close>

definition customer_of :: "builtins \<Rightarrow> string list \<Rightarrow> sqlval list \<Rightarrow> customer_row" where
  "customer_of B cols vals =
     \<lparr>c_name = aff_text B (arg cols vals ''name''),
      c_email = aff_text B (arg cols vals ''email''),
      c_address = aff_text B (arg cols vals ''address''),
      c_join_date = aff_text B (arg cols vals ''join_date'')\<rparr>"

definition product_of :: "builtins \<Rightarrow> string list \<Rightarrow> sqlval list \<Rightarrow> product_row" where
  "product_of B cols vals =
     \<lparr>p_name = aff_text B (arg cols vals ''name''),
      p_category = aff_text B (arg cols vals ''category''),
      p_price = aff_real B (arg cols vals ''price''),
      p_sku = aff_text B (arg cols vals ''sku'')\<rparr>"

definition order_of :: "builtins \<Rightarrow> string list \<Rightarrow> sqlval list \<Rightarrow> order_row" where
  "order_of B cols vals =
     \<lparr>o_customer_id = aff_integer B (arg cols vals ''customer_id''),
      o_order_date = aff_text B (arg cols vals ''order_date''),
      o_total = aff_real B (arg cols vals ''total''),
      o_status = aff_text B (arg cols vals ''status'')\<rparr>"

definition item_of :: "builtins \<Rightarrow> string list \<Rightarrow> sqlval list \<Rightarrow> item_row" where
  "item_of B cols vals =
     \<lparr>i_order_id = aff_integer B (arg cols vals ''order_id''),
      i_product_id = aff_integer B (arg cols vals ''product_id''),
      i_quantity = aff_integer B (arg cols vals ''quantity''),
      i_unit_price = aff_real B (arg cols vals ''unit_price''),
      i_line_total = aff_real B (arg cols vals ''line_total'')\<rparr>"

definition review_of :: "builtins \<Rightarrow> string list \<Rightarrow> sqlval list \<Rightarrow> review_row" where
  "review_of B cols vals =
     \<lparr>v_product_id = aff_integer B (arg cols vals ''product_id''),
      v_customer_id = aff_integer B (arg cols vals ''customer_id''),
      v_rating = aff_integer B (arg cols vals ''rating''),
      v_review_text = aff_text B (arg cols vals ''review_text''),
      v_review_date = aff_text B (arg cols vals ''review_date'')\<rparr>"

text \<open>Some row of \<^verbatim>\<open>orders\<close> or \<^verbatim>\<open>reviews\<close> references customer \<open>d\<close>.\<close>

definition customer_referenced :: "store \<Rightarrow> int \<Rightarrow> bool" where
  "customer_referenced st d =
     (list_ex (\<lambda>p. refs (o_customer_id (snd p)) d) (orders st) \<or>
      list_ex (\<lambda>p. refs (v_customer_id (snd p)) d) (reviews st))"

text \<open>The rows that \<^verbatim>\<open>email TEXT UNIQUE\<close> makes REPLACE delete besides the row of the same
  key: those of another key with the same email, NULL never being equal to NULL.\<close>

definition email_clash :: "int \<Rightarrow> customer_row \<Rightarrow> int \<times> customer_row \<Rightarrow> bool" where
  "email_clash k r p = (fst p \<noteq> k \<and> c_email r \<noteq> SqlNull \<and> c_email (snd p) = c_email r)"

text \<open>
  \<^verbatim>\<open>INSERT OR REPLACE INTO customers\<close>. The row of the same key is deleted and inserted
  again, which no child row notices; a row deleted for its email is gone, and the statement
  fails when a child row references it.
\<close>

definition insert_customer :: "builtins \<Rightarrow> store \<Rightarrow> string list \<Rightarrow> sqlval list \<Rightarrow> error + store" where
  "insert_customer B st cols vals =
     (case rowid_of B (arg cols vals ''customer_id'') of
        Inl e \<Rightarrow> Inl e
      | Inr ko \<Rightarrow>
          (let k = new_key ko (customers st);
               r = customer_of B cols vals;
               gone = filter (email_clash k r) (customers st);
               kept = filter (\<lambda>p. \<not> email_clash k r p) (customers st)
           in if list_ex (\<lambda>p. customer_referenced st (fst p)) gone then Inl ForeignKeyFailed
              else Inr (st\<lparr>customers := tbl_put k r kept\<rparr>)))"

definition insert_product :: "builtins \<Rightarrow> store \<Rightarrow> string list \<Rightarrow> sqlval list \<Rightarrow> error + store" where
  "insert_product B st cols vals =
     (case rowid_of B (arg cols vals ''product_id'') of
        Inl e \<Rightarrow> Inl e
      | Inr ko \<Rightarrow>
          (let k = new_key ko (products st);
               r = product_of B cols vals
           in Inr (st\<lparr>products := tbl_put k r (products st)\<rparr>)))"

definition insert_order :: "builtins \<Rightarrow> store \<Rightarrow> string list \<Rightarrow> sqlval list \<Rightarrow> error + store" where
  "insert_order B st cols vals =
     (case rowid_of B (arg cols vals ''order_id'') of
        Inl e \<Rightarrow> Inl e
      | Inr ko \<Rightarrow>
          (let k = new_key ko (orders st);
               r = order_of B cols vals
           in if fk_ok (o_customer_id r) (customers st)
              then Inr (st\<lparr>orders := tbl_put k r (orders st)\<rparr>)
              else Inl ForeignKeyFailed))"

definition insert_item :: "builtins \<Rightarrow> store \<Rightarrow> string list \<Rightarrow> sqlval list \<Rightarrow> error + store" where
  "insert_item B st cols vals =
     (case rowid_of B (arg cols vals ''order_item_id'') of
        Inl e \<Rightarrow> Inl e
      | Inr ko \<Rightarrow>
          (let k = new_key ko (order_items st);
               r = item_of B cols vals
           in if fk_ok (i_order_id r) (orders st) \<and> fk_ok (i_product_id r) (products st)
              then Inr (st\<lparr>order_items := tbl_put k r (order_items st)\<rparr>)
              else Inl ForeignKeyFailed))"

definition insert_review :: "builtins \<Rightarrow> store \<Rightarrow> string list \<Rightarrow> sqlval list \<Rightarrow> error + store" where
  "insert_review B st cols vals =
     (case rowid_of B (arg cols vals ''review_id'') of
        Inl e \<Rightarrow> Inl e
      | Inr ko \<Rightarrow>
          (let k = new_key ko (reviews st);
               r = review_of B cols vals
           in if fk_ok (v_product_id r) (products st) \<and> fk_ok (v_customer_id r) (customers st)
              then Inr (st\<lparr>reviews := tbl_put k r (reviews st)\<rparr>)
              else Inl ForeignKeyFailed))"

datatype table_name = Customers | Products | Orders | Order_items | Reviews

text \<open>One execution of \<^verbatim>\<open>INSERT OR REPLACE INTO {table} ({colnames}) VALUES (?,...)\<close>:
  the parameters are bound, then the statement runs on the table named.\<close>

definition exec_insert :: "builtins \<Rightarrow> table_name \<Rightarrow> string list \<Rightarrow> store \<Rightarrow> pyval list \<Rightarrow> error + store" where
  "exec_insert B t cols st params =
     (case bind_params params of
        Inl e \<Rightarrow> Inl e
      | Inr vals \<Rightarrow>
          (case t of
             Customers \<Rightarrow> insert_customer B st cols vals
           | Products \<Rightarrow> insert_product B st cols vals
           | Orders \<Rightarrow> insert_order B st cols vals
           | Order_items \<Rightarrow> insert_item B st cols vals
           | Reviews \<Rightarrow> insert_review B st cols vals))"

text \<open>\<^verbatim>\<open>row.get(c, None)\<close>.\<close>

definition dict_get :: "pydict \<Rightarrow> string \<Rightarrow> pyval" where
  "dict_get row c = (case row c of None \<Rightarrow> PyNone | Some v \<Rightarrow> v)"

text \<open>\<^verbatim>\<open>insert_rows\<close>: \<^verbatim>\<open>executemany\<close> runs the statement once per row, in order, and
  stops at the first row that raises.\<close>

definition insert_rows :: "builtins \<Rightarrow> store \<Rightarrow> table_name \<Rightarrow> pydict list \<Rightarrow> string list \<Rightarrow> error + store" where
  "insert_rows B conn t rows columns =
     for_each (exec_insert B t columns) conn (map (\<lambda>row. map (dict_get row) columns) rows)"

section \<open>Aggregates\<close>

text \<open>The double a function or an arithmetic operator reads a value as.\<close>

fun as_double :: "builtins \<Rightarrow> sqlval \<Rightarrow> flt" where
  "as_double B SqlNull = Fin 0"
| "as_double B (SqlInt n) = sql_int_real B n"
| "as_double B (SqlReal f) = f"
| "as_double B (SqlText s) = sql_prefix B s"

fun is_int :: "sqlval \<Rightarrow> bool" where
  "is_int (SqlInt n) = True"
| "is_int v = False"

fun int_of :: "sqlval \<Rightarrow> int" where
  "int_of (SqlInt n) = n"
| "int_of v = 0"

text \<open>A floating-point result handed back to SQLite: a NaN becomes NULL.\<close>

definition result_double :: "flt \<Rightarrow> sqlval" where
  "result_double f = (if f = NaN then SqlNull else SqlReal f)"

text \<open>
  \<^verbatim>\<open>SUM(X)\<close>: NULLs are skipped; with no other value the sum is NULL; the sum of integers
  is an integer; as soon as one value is not an integer the sum is the floating-point total
  of the library. (The summed columns have REAL affinity and hold no integer, so the
  overflow of an integer sum is not modelled.)
\<close>

definition sql_sum :: "builtins \<Rightarrow> sqlval list \<Rightarrow> sqlval" where
  "sql_sum B vs =
     (let xs = filter (\<lambda>v. v \<noteq> SqlNull) vs
      in if xs = [] then SqlNull
         else if list_all is_int xs then SqlInt (sum_list (map int_of xs))
         else result_double (sql_sum_real B xs))"

text \<open>\<^verbatim>\<open>ROUND(X, 2)\<close>: NULL for NULL, else the library's rounding of the value read as a
  double.\<close>

definition sql_round2 :: "builtins \<Rightarrow> sqlval \<Rightarrow> sqlval" where
  "sql_round2 B v =
     (if v = SqlNull then SqlNull else result_double (sql_round_real B (as_double B v)))"

section \<open>Update total order amounts\<close>

text \<open>The items the correlated subquery reads for order \<open>k\<close>:
  \<^verbatim>\<open>WHERE order_items.order_id = orders.order_id\<close>.\<close>

definition items_of :: "store \<Rightarrow> int \<Rightarrow> item_row list" where
  "items_of st k = map snd (filter (\<lambda>p. refs (i_order_id (snd p)) k) (order_items st))"

text \<open>\<^verbatim>\<open>SELECT ROUND(SUM(line_total), 2) FROM order_items WHERE ...\<close>, stored in a column of
  REAL affinity.\<close>

definition items_total :: "builtins \<Rightarrow> store \<Rightarrow> int \<Rightarrow> sqlval" where
  "items_total B st k = aff_real B (sql_round2 B (sql_sum B (map i_line_total (items_of st k))))"

text \<open>The UPDATE: a row of \<^verbatim>\<open>orders\<close> is changed when its key is
  \<^verbatim>\<open>IN (SELECT DISTINCT order_id FROM order_items)\<close>.\<close>

definition update_totals :: "builtins \<Rightarrow> store \<Rightarrow> store" where
  "update_totals B st =
     st\<lparr>orders :=
          map (\<lambda>p. if items_of st (fst p) \<noteq> []
                   then (fst p, (snd p)\<lparr>o_total := items_total B st (fst p)\<rparr>)
                   else p)
              (orders st)\<rparr>"

section \<open>Customer lifetime value report\<close>

record ltv_row =
  customer_id :: sqlval
  name :: sqlval
  lifetime_spend :: sqlval
  orders_count :: sqlval
  avg_order_value :: sqlval
  last_order_date :: sqlval

text \<open>The order of SQLite's values: NULL first, then the numbers by their exact value
  (an integer and a double are compared without conversion), then the texts byte by byte.\<close>

fun num_val :: "sqlval \<Rightarrow> flt" where
  "num_val (SqlInt n) = Fin (of_int n)"
| "num_val (SqlReal f) = f"
| "num_val v = Fin 0"

fun flt_le :: "flt \<Rightarrow> flt \<Rightarrow> bool" where
  "flt_le NaN y = True"
| "flt_le x NaN = False"
| "flt_le NInf y = True"
| "flt_le x PInf = True"
| "flt_le (Fin a) (Fin b) = (a \<le> b)"
| "flt_le x y = False"

fun str_le :: "string \<Rightarrow> string \<Rightarrow> bool" where
  "str_le [] ys = True"
| "str_le (x # xs) [] = False"
| "str_le (x # xs) (y # ys) =
     ((of_char x :: nat) < of_char y \<or> (x = y \<and> str_le xs ys))"

fun sql_le :: "sqlval \<Rightarrow> sqlval \<Rightarrow> bool" where
  "sql_le SqlNull y = True"
| "sql_le x SqlNull = False"
| "sql_le (SqlText a) (SqlText b) = str_le a b"
| "sql_le (SqlText a) y = False"
| "sql_le x (SqlText b) = True"
| "sql_le x y = flt_le (num_val x) (num_val y)"

text \<open>\<^verbatim>\<open>MAX(X)\<close>: NULLs are skipped, a later value replaces the best one when it is
  strictly greater; NULL with no value.\<close>

definition sql_max :: "sqlval list \<Rightarrow> sqlval" where
  "sql_max vs =
     foldl (\<lambda>m v. if v = SqlNull then m
                   else if m = SqlNull then v
                   else if sql_le v m then m else v) SqlNull vs"

definition coalesce :: "sqlval \<Rightarrow> sqlval \<Rightarrow> sqlval" where
  "coalesce a b = (if a = SqlNull then b else a)"

text \<open>\<^verbatim>\<open>SUM(o.total) / COUNT(DISTINCT o.order_id)\<close> in the ELSE branch, where the count \<open>n\<close>
  is positive: integer division (truncating) of an integer sum, the library's division of
  doubles otherwise, NULL for a NULL sum.\<close>

definition sql_div_count :: "builtins \<Rightarrow> sqlval \<Rightarrow> nat \<Rightarrow> sqlval" where
  "sql_div_count B s n =
     (case s of
        SqlNull \<Rightarrow> SqlNull
      | SqlInt a \<Rightarrow> SqlInt (trunc (of_int a / of_nat n))
      | _ \<Rightarrow> result_double (sql_div_real B (as_double B s) (sql_int_real B (int n))))"

text \<open>The rows of \<^verbatim>\<open>orders\<close> that the LEFT JOIN pairs with customer \<open>k\<close>:
  \<^verbatim>\<open>ON o.customer_id = c.customer_id AND o.status = 'completed'\<close>.\<close>

definition completed_orders :: "store \<Rightarrow> int \<Rightarrow> (int \<times> order_row) list" where
  "completed_orders st k =
     filter (\<lambda>p. refs (o_customer_id (snd p)) k \<and> o_status (snd p) = SqlText ''completed'')
       (orders st)"

text \<open>The select list on the group of one customer. \<^verbatim>\<open>customer_id\<close> is the primary key,
  so \<^verbatim>\<open>GROUP BY c.customer_id, c.name\<close> makes each row of \<^verbatim>\<open>customers\<close> a group.\<close>

definition ltv_of :: "builtins \<Rightarrow> store \<Rightarrow> int \<times> customer_row \<Rightarrow> ltv_row" where
  "ltv_of B st c =
     (let os = completed_orders st (fst c);
          total = sql_sum B (map (\<lambda>p. o_total (snd p)) os);
          n = length (remdups (map fst os))
      in \<lparr>customer_id = SqlInt (fst c),
          name = c_name (snd c),
          lifetime_spend = coalesce total (SqlInt 0),
          orders_count = coalesce (SqlInt (int n)) (SqlInt 0),
          avg_order_value = (if n = 0 then SqlInt 0 else sql_round2 B (sql_div_count B total n)),
          last_order_date = sql_max (map (\<lambda>p. o_order_date (snd p)) os)\<rparr>)"

text \<open>\<^verbatim>\<open>ORDER BY lifetime_spend DESC\<close>, as a stable insertion sort: SQL leaves the order of
  rows with equal spend open, the model keeps them in key order.\<close>

fun insert_desc :: "ltv_row \<Rightarrow> ltv_row list \<Rightarrow> ltv_row list" where
  "insert_desc x [] = [x]"
| "insert_desc x (y # ys) =
     (if sql_le (lifetime_spend y) (lifetime_spend x) then x # y # ys
      else y # insert_desc x ys)"

definition order_by_spend_desc :: "ltv_row list \<Rightarrow> ltv_row list" where
  "order_by_spend_desc rows = foldr insert_desc rows []"

text \<open>\<^verbatim>\<open>cur.fetchall()\<close> of the report query.\<close>

definition ltv_query :: "builtins \<Rightarrow> store \<Rightarrow> ltv_row list" where
  "ltv_query B st = order_by_spend_desc (map (ltv_of B st) (customers st))"

section \<open>Main ingestion\<close>

text \<open>
  A row as \<^verbatim>\<open>csv.DictReader\<close> yields it: the header's names mapped to the row's strings,
  or to \<^verbatim>\<open>None\<close> where the row is shorter than the header.
\<close>

type_synonym csvrow = "string \<rightharpoonup> string option"

definition row_dict :: "csvrow \<Rightarrow> pydict" where
  "row_dict r = (\<lambda>c. case r c of None \<Rightarrow> None | Some None \<Rightarrow> Some PyNone | Some (Some s) \<Rightarrow> Some (PyStr s))"

text \<open>The data directory: for each table's path, \<open>None\<close> when the file does not exist, else
  the rows \<^verbatim>\<open>read_csv_rows\<close> yields.\<close>

type_synonym data_dir = "table_name \<Rightarrow> csvrow list option"

definition tables :: "table_name list" where
  "tables = [Customers, Products, Orders, Order_items, Reviews]"

fun col_map :: "table_name \<Rightarrow> string list" where
  "col_map Customers = [''customer_id'', ''name'', ''email'', ''address'', ''join_date'']"
| "col_map Products = [''product_id'', ''name'', ''category'', ''price'', ''sku'']"
| "col_map Orders = [''order_id'', ''customer_id'', ''order_date'', ''total'', ''status'']"
| "col_map Order_items = [''order_item_id'', ''order_id'', ''product_id'', ''quantity'', ''unit_price'', ''line_total'']"
| "col_map Reviews = [''review_id'', ''product_id'', ''customer_id'', ''rating'', ''review_text'', ''review_date'']"

text \<open>What a run does that can be observed: the statements it executes and the lines it
  prints, in order.\<close>

datatype event =
    Removed_db
  | Skip_missing table_name
  | Skip_empty table_name
  | Inserted table_name nat
  | Update_totals
  | Wrote_ltv

record run =
  conn :: store
  log :: "event list"

text \<open>
  The body of \<^verbatim>\<open>for table, path in paths.items()\<close>. The inserts of one table run inside
  \<^verbatim>\<open>with conn\<close>: they are committed together, and an exception rolls all of them back
  and leaves the loop.
\<close>

definition load_table :: "builtins \<Rightarrow> data_dir \<Rightarrow> run \<Rightarrow> table_name \<Rightarrow> error + run" where
  "load_table B dir s t =
     (case dir t of
        None \<Rightarrow> Inr (s\<lparr>log := log s @ [Skip_missing t]\<rparr>)
      | Some rows0 \<Rightarrow>
          if rows0 = [] then Inr (s\<lparr>log := log s @ [Skip_empty t]\<rparr>)
          else
            (case coerce_rows B (map row_dict rows0) of
               Inl e \<Rightarrow> Inl e
             | Inr rows \<Rightarrow>
                 (case insert_rows B (conn s) t rows (col_map t) of
                    Inl e \<Rightarrow> Inl e
                  | Inr st \<Rightarrow> Inr \<lparr>conn = st, log = log s @ [Inserted t (length rows)]\<rparr>)))"

text \<open>The loop, keeping the state reached when an exception leaves it.\<close>

fun load_all :: "builtins \<Rightarrow> data_dir \<Rightarrow> run \<Rightarrow> table_name list \<Rightarrow> error option \<times> run" where
  "load_all B dir s [] = (None, s)"
| "load_all B dir s (t # ts) =
     (case load_table B dir s t of
        Inl e \<Rightarrow> (Some e, s)
      | Inr s' \<Rightarrow> load_all B dir s' ts)"

record outcome =
  failure :: "error option"
  db :: store
  events :: "event list"
  report :: "ltv_row list option"

text \<open>
  The start of \<^verbatim>\<open>ingest\<close>, up to \<^verbatim>\<open>create_schema(conn)\<close>. The database file is \<open>None\<close>
  when \<^verbatim>\<open>db_path\<close> does not exist; \<^verbatim>\<open>sqlite3.connect\<close> and \<^verbatim>\<open>create_schema\<close> then make
  the empty store, and leave an existing store (of this schema) as it is.
\<close>

definition open_db :: "store option \<Rightarrow> bool \<Rightarrow> run" where
  "open_db db_file replace =
     (let removed = (replace \<and> db_file \<noteq> None);
          file = (if removed then None else db_file)
      in \<lparr>conn = (case file of None \<Rightarrow> empty_store | Some st \<Rightarrow> st),
          log = (if removed then [Removed_db] else [])\<rparr>)"

text \<open>\<^verbatim>\<open>ingest(data_dir, db_path, replace, write_ltv)\<close>.\<close>

definition ingest :: "builtins \<Rightarrow> data_dir \<Rightarrow> store option \<Rightarrow> bool \<Rightarrow> bool \<Rightarrow> outcome" where
  "ingest B dir db_file replace write_ltv =
     (case load_all B dir (open_db db_file replace) tables of
        (Some e, s) \<Rightarrow> \<lparr>failure = Some e, db = conn s, events = log s, report = None\<rparr>
      | (None, s) \<Rightarrow>
             (let st = update_totals B (conn s);
                  ev = log s @ [Update_totals]
              in if write_ltv
                 then \<lparr>failure = None, db = st, events = ev @ [Wrote_ltv],
                       report = Some (ltv_query B st)\<rparr>
                 else \<lparr>failure = None, db = st, events = ev, report = None\<rparr>))"

section \<open>Numeric literals for worked examples\<close>

text \<open>
  The examples below need the library functions on the strings and numbers they use. The
  strings are plain decimal literals (an optional sign, digits, an optional fraction) that
  denote a double exactly, that is, numbers with a short binary expansion such as 30,
  7.5 or 9.998046875 (5119/512); \<^verbatim>\<open>inf\<close> and \<^verbatim>\<open>nan\<close> for Python; and words without a
  digit, which are no number to either library. On such numbers every sum and every
  quotient that the examples form is a double again, so floating-point arithmetic is exact
  there, and no number that the examples round lies halfway between two values of two
  decimals. The functions of this section stand for the libraries on these strings and
  numbers only: they are not the libraries on a literal such as 0.1, which is no double.
  Every general theorem holds for all library functions. No example stores a number in a
  column of TEXT affinity, so the rendering of numbers is left empty.
\<close>

definition digit_val :: "char \<Rightarrow> int option" where
  "digit_val c = (let n = (of_char c :: int) in if 48 \<le> n \<and> n \<le> 57 then Some (n - 48) else None)"

fun digits_val :: "int \<Rightarrow> string \<Rightarrow> int option" where
  "digits_val acc [] = Some acc"
| "digits_val acc (c # cs) =
     (case digit_val c of None \<Rightarrow> None | Some d \<Rightarrow> digits_val (10 * acc + d) cs)"

text \<open>An unsigned literal: digits, or digits, a point and digits.\<close>

definition unsigned_lit :: "string \<Rightarrow> rat option" where
  "unsigned_lit s =
     (let ip = takeWhile (\<lambda>c. c \<noteq> CHR ''.'') s;
          rest = dropWhile (\<lambda>c. c \<noteq> CHR ''.'') s
      in if ip = [] then None
         else (case digits_val 0 ip of
                 None \<Rightarrow> None
               | Some a \<Rightarrow>
                   (case rest of
                      [] \<Rightarrow> Some (of_int a)
                    | d # fp \<Rightarrow>
                        (case digits_val 0 fp of
                           None \<Rightarrow> None
                         | Some b \<Rightarrow> Some (of_int a + of_int b / 10 ^ length fp)))))"

definition decimal_lit :: "string \<Rightarrow> rat option" where
  "decimal_lit s =
     (case s of
        [] \<Rightarrow> None
      | c # cs \<Rightarrow>
          if c = CHR ''-'' then map_option uminus (unsigned_lit cs)
          else if c = CHR ''+'' then unsigned_lit cs
          else unsigned_lit s)"

definition float_lit :: "string \<Rightarrow> flt option" where
  "float_lit s =
     (if s = ''inf'' then Some PInf
      else if s = ''-inf'' then Some NInf
      else if s = ''nan'' then Some NaN
      else map_option Fin (decimal_lit s))"

text \<open>The number that numeric affinity stores for a literal: the integer that a literal
  without a fraction denotes, when it has 64 bits, else the number as a double, or as an
  integer where that loses nothing.\<close>

definition numeric_lit :: "string \<Rightarrow> sqlval option" where
  "numeric_lit s =
     (case decimal_lit s of
        None \<Rightarrow> None
      | Some q \<Rightarrow>
          Some (if CHR ''.'' \<notin> set s \<and> int64 \<lfloor>q\<rfloor> then SqlInt \<lfloor>q\<rfloor> else numeric_val q))"

text \<open>The value of the numeric prefix: that of the whole text when it is a literal, 0 for a
  word without a digit.\<close>

definition prefix_lit :: "string \<Rightarrow> flt" where
  "prefix_lit s = (case decimal_lit s of None \<Rightarrow> Fin 0 | Some q \<Rightarrow> Fin q)"

text \<open>An integer of the examples as a double.\<close>

definition int_real_lit :: "int \<Rightarrow> flt" where
  "int_real_lit n = Fin (of_int n)"

text \<open>Addition where the sum of two finite numbers is a double.\<close>

fun flt_add :: "flt \<Rightarrow> flt \<Rightarrow> flt" where
  "flt_add (Fin a) (Fin b) = Fin (a + b)"
| "flt_add NaN y = NaN"
| "flt_add x NaN = NaN"
| "flt_add PInf NInf = NaN"
| "flt_add NInf PInf = NaN"
| "flt_add PInf y = PInf"
| "flt_add NInf y = NInf"
| "flt_add x PInf = PInf"
| "flt_add x NInf = NInf"

fun value_lit :: "sqlval \<Rightarrow> flt" where
  "value_lit SqlNull = Fin 0"
| "value_lit (SqlInt n) = int_real_lit n"
| "value_lit (SqlReal f) = f"
| "value_lit (SqlText s) = prefix_lit s"

text \<open>The total of a group each of whose partial sums is a double.\<close>

definition sum_lit :: "sqlval list \<Rightarrow> flt" where
  "sum_lit vs = foldl flt_add (Fin 0) (map value_lit vs)"

text \<open>Rounding to two decimals of a number that is not halfway between two of them: to
  the nearest one. (The result stands for the double nearest to it; in the examples it is a
  whole number.)\<close>

definition round2 :: "rat \<Rightarrow> rat" where
  "round2 q = (if 0 \<le> q then of_int \<lfloor>q * 100 + 1 / 2\<rfloor> / 100 else - (of_int \<lfloor>- q * 100 + 1 / 2\<rfloor> / 100))"

fun round_lit :: "flt \<Rightarrow> flt" where
  "round_lit (Fin q) = Fin (round2 q)"
| "round_lit f = f"

text \<open>Division where the quotient of two finite numbers is a double.\<close>

fun div_lit :: "flt \<Rightarrow> flt \<Rightarrow> flt" where
  "div_lit (Fin a) (Fin b) =
     (if b \<noteq> 0 then Fin (a / b) else if a = 0 then NaN else if 0 < a then PInf else NInf)"
| "div_lit NaN y = NaN"
| "div_lit x NaN = NaN"
| "div_lit (Fin a) y = Fin 0"
| "div_lit PInf (Fin b) = (if b < 0 then NInf else PInf)"
| "div_lit NInf (Fin b) = (if b < 0 then PInf else NInf)"
| "div_lit x y = NaN"

definition lit_builtins :: builtins where
  "lit_builtins =
     \<lparr>py_float_str = float_lit, sql_numeric = numeric_lit, sql_prefix = prefix_lit,
      sql_num_text = (\<lambda>v. []), sql_int_real = int_real_lit, sql_sum_real = sum_lit,
      sql_round_real = round_lit, sql_div_real = div_lit\<rparr>"

section \<open>What the specification says of a coerced cell\<close>

text \<open>
  The cell the specification describes for a column typed as integer: the text parsed as a
  number and truncated, the original value where there is no text or no number.
\<close>

definition spec_int_cell :: "builtins \<Rightarrow> string option \<Rightarrow> pyval" where
  "spec_int_cell B cell =
     (case cell of
        None \<Rightarrow> PyNone
      | Some s \<Rightarrow>
          if s = [] then PyStr s
          else (case py_float_str B s of Some (Fin q) \<Rightarrow> PyInt (trunc q) | _ \<Rightarrow> PyStr s))"

text \<open>The same on a cell of the row dictionary, and the cells on which
  \<^verbatim>\<open>int(float(r[col]))\<close> raises nothing but ValueError.\<close>

definition int_cell :: "builtins \<Rightarrow> pyval \<Rightarrow> pyval" where
  "int_cell B v =
     (if truthy v then (case py_float B v of Inr (Fin q) \<Rightarrow> PyInt (trunc q) | _ \<Rightarrow> v) else v)"

definition no_inf :: "builtins \<Rightarrow> pyval option \<Rightarrow> bool" where
  "no_inf B cell =
     (\<forall>v. cell = Some v \<longrightarrow> truthy v \<longrightarrow> py_float B v \<noteq> Inr PInf \<and> py_float B v \<noteq> Inr NInf)"

text \<open>A row of a file with a quantity, a rating and a review id.\<close>

definition demo_row :: csvrow where
  "demo_row = [''quantity'' \<mapsto> Some ''3.0'', ''rating'' \<mapsto> Some ''abc'', ''review_id'' \<mapsto> Some ''7.0'']"

section \<open>Reading the log\<close>

text \<open>The event that the pass of the loop for table \<open>t\<close> logs.\<close>

fun load_event :: "table_name \<Rightarrow> event \<Rightarrow> bool" where
  "load_event t (Skip_missing t') = (t = t')"
| "load_event t (Skip_empty t') = (t = t')"
| "load_event t (Inserted t' n) = (t = t')"
| "load_event t ev = False"

section \<open>Example data\<close>

text \<open>
  A small shop: two customers, one product, three orders of the first customer (two
  completed, one cancelled), one item, which belongs to order 1, and no reviews file. The
  total that \<^verbatim>\<open>orders.csv\<close> carries for order 1 is not the sum of its items.
\<close>

definition customer_csv :: "string \<Rightarrow> string \<Rightarrow> string \<Rightarrow> string \<Rightarrow> string \<Rightarrow> csvrow" where
  "customer_csv cid nm email addr joined =
     [''customer_id'' \<mapsto> Some cid, ''name'' \<mapsto> Some nm, ''email'' \<mapsto> Some email,
      ''address'' \<mapsto> Some addr, ''join_date'' \<mapsto> Some joined]"

definition product_csv :: "string \<Rightarrow> string \<Rightarrow> string \<Rightarrow> string \<Rightarrow> string \<Rightarrow> csvrow" where
  "product_csv pid nm cat price sku =
     [''product_id'' \<mapsto> Some pid, ''name'' \<mapsto> Some nm, ''category'' \<mapsto> Some cat,
      ''price'' \<mapsto> Some price, ''sku'' \<mapsto> Some sku]"

definition order_csv :: "string \<Rightarrow> string \<Rightarrow> string \<Rightarrow> string \<Rightarrow> string \<Rightarrow> csvrow" where
  "order_csv oid cid date amount status =
     [''order_id'' \<mapsto> Some oid, ''customer_id'' \<mapsto> Some cid, ''order_date'' \<mapsto> Some date,
      ''total'' \<mapsto> Some amount, ''status'' \<mapsto> Some status]"

definition item_csv :: "string \<Rightarrow> string \<Rightarrow> string \<Rightarrow> string \<Rightarrow> string \<Rightarrow> string \<Rightarrow> csvrow" where
  "item_csv iid oid pid qty price amount =
     [''order_item_id'' \<mapsto> Some iid, ''order_id'' \<mapsto> Some oid, ''product_id'' \<mapsto> Some pid,
      ''quantity'' \<mapsto> Some qty, ''unit_price'' \<mapsto> Some price, ''line_total'' \<mapsto> Some amount]"

definition shop_dir :: data_dir where
  "shop_dir t =
     (case t of
        Customers \<Rightarrow> Some
          [customer_csv ''1'' ''Ann'' ''ann@x.org'' ''1 Elm Street'' ''2024-01-01'',
           customer_csv ''2'' ''Bob'' ''bob@x.org'' ''2 Oak Street'' ''2024-01-02'']
      | Products \<Rightarrow> Some [product_csv ''1'' ''Pen'' ''Home'' ''10.0'' ''SKU-000001'']
      | Orders \<Rightarrow> Some
          [order_csv ''1'' ''1'' ''2024-02-01'' ''99.0'' ''completed'',
           order_csv ''2'' ''1'' ''2024-03-01'' ''20.0'' ''completed'',
           order_csv ''3'' ''1'' ''2024-04-01'' ''100.0'' ''cancelled'']
      | Order_items \<Rightarrow> Some [item_csv ''1'' ''1'' ''1'' ''3.0'' ''10.0'' ''30.0'']
      | Reviews \<Rightarrow> None)"

text \<open>Only \<^verbatim>\<open>customers.csv\<close>, with a key that is no number.\<close>

definition bad_key_dir :: data_dir where
  "bad_key_dir t =
     (case t of
        Customers \<Rightarrow> Some [customer_csv ''abc'' ''Ann'' ''ann@x.org'' ''1 Elm Street'' ''2024-01-01'']
      | _ \<Rightarrow> None)"

text \<open>Only \<^verbatim>\<open>orders.csv\<close>, with an order of customer 1: \<^verbatim>\<open>customers.csv\<close> is missing.\<close>

definition orphan_dir :: data_dir where
  "orphan_dir t =
     (case t of
        Orders \<Rightarrow> Some [order_csv ''1'' ''1'' ''2024-02-01'' ''20.0'' ''completed'']
      | _ \<Rightarrow> None)"

section \<open>Reading a file row as the store receives it\<close>

text \<open>The parameters that \<^verbatim>\<open>insert_rows\<close> binds for a row of the file of table \<open>t\<close>, after
  the type conversion; \<open>None\<close> when the conversion or the binding raises.\<close>

definition params_of :: "builtins \<Rightarrow> table_name \<Rightarrow> csvrow \<Rightarrow> sqlval list option" where
  "params_of B t x =
     (case coerce_row B (row_dict x) of
        Inl e \<Rightarrow> None
      | Inr r \<Rightarrow>
          (case bind_params (map (dict_get r) (col_map t)) of
             Inl e \<Rightarrow> None
           | Inr vals \<Rightarrow> Some vals))"

text \<open>The primary key column of each table, as \<^verbatim>\<open>SQL_CREATE\<close> declares it.\<close>

fun key_col :: "table_name \<Rightarrow> string" where
  "key_col Customers = ''customer_id''"
| "key_col Products = ''product_id''"
| "key_col Orders = ''order_id''"
| "key_col Order_items = ''order_item_id''"
| "key_col Reviews = ''review_id''"

text \<open>The key that a row of the file of table \<open>t\<close> carries; \<open>None\<close> when it carries none that
  is an integer.\<close>

definition csv_key :: "builtins \<Rightarrow> table_name \<Rightarrow> csvrow \<Rightarrow> int option" where
  "csv_key B t x =
     (case params_of B t x of
        None \<Rightarrow> None
      | Some vals \<Rightarrow>
          (case rowid_of B (arg (col_map t) vals (key_col t)) of
             Inr (Some k) \<Rightarrow> Some k
           | _ \<Rightarrow> None))"

text \<open>The two steps that one row of the file of table \<open>t\<close> goes through, taken together: its
  type conversion, then its insert.\<close>

definition put_row :: "builtins \<Rightarrow> table_name \<Rightarrow> store \<Rightarrow> csvrow \<Rightarrow> error + store" where
  "put_row B t st x =
     (case coerce_row B (row_dict x) of
        Inl e \<Rightarrow> Inl e
      | Inr r \<Rightarrow> exec_insert B t (col_map t) st (map (dict_get r) (col_map t)))"

section \<open>Well-formed stores and keyed files\<close>

text \<open>A table of SQLite holds its rows in rowid order, one row for each rowid.\<close>

definition wf_tbl :: "'r table \<Rightarrow> bool" where
  "wf_tbl t = (sorted (map fst t) \<and> distinct (map fst t))"

definition wf_store :: "store \<Rightarrow> bool" where
  "wf_store st =
     (wf_tbl (customers st) \<and> wf_tbl (products st) \<and> wf_tbl (orders st) \<and>
      wf_tbl (order_items st) \<and> wf_tbl (reviews st))"

text \<open>A run of inserts under given keys.\<close>

definition puts :: "(int \<times> 'r) list \<Rightarrow> 'r table \<Rightarrow> 'r table" where
  "puts kvs t = fold (\<lambda>p. tbl_put (fst p) (snd p)) kvs t"

text \<open>Every row of every file of the directory carries an integer as its primary key.\<close>

definition keyed :: "builtins \<Rightarrow> data_dir \<Rightarrow> bool" where
  "keyed B dir =
     list_all (\<lambda>t. case dir t of None \<Rightarrow> True
                  | Some rows \<Rightarrow> list_all (\<lambda>x. csv_key B t x \<noteq> None) rows) tables"

text \<open>The email that a row of \<^verbatim>\<open>customers.csv\<close> is stored with.\<close>

definition csv_email :: "builtins \<Rightarrow> csvrow \<Rightarrow> sqlval" where
  "csv_email B x =
     (case params_of B Customers x of
        None \<Rightarrow> SqlNull
      | Some vals \<Rightarrow> c_email (customer_of B (col_map Customers) vals))"

text \<open>No two of the rows, taken as rows of \<^verbatim>\<open>customers.csv\<close>, have different keys and the
  same email.\<close>

definition apart :: "builtins \<Rightarrow> csvrow list \<Rightarrow> bool" where
  "apart B rows =
     (\<forall>x\<in>set rows. \<forall>y\<in>set rows.
        csv_key B Customers x = csv_key B Customers y \<or> csv_email B x = SqlNull \<or>
        csv_email B x \<noteq> csv_email B y)"

text \<open>The same of the file \<^verbatim>\<open>customers.csv\<close> of a directory, as a test.\<close>

definition emails_apart :: "builtins \<Rightarrow> data_dir \<Rightarrow> bool" where
  "emails_apart B dir =
     (case dir Customers of
        None \<Rightarrow> True
      | Some rows \<Rightarrow>
          list_all (\<lambda>x. list_all (\<lambda>y. csv_key B Customers x = csv_key B Customers y \<or>
                                      csv_email B x = SqlNull \<or>
                                      csv_email B x \<noteq> csv_email B y) rows) rows)"

text \<open>The key and the row that a keyed row of a file is stored under, table by table.\<close>

definition customer_kv :: "builtins \<Rightarrow> csvrow \<Rightarrow> int \<times> customer_row" where
  "customer_kv B x =
     (the (csv_key B Customers x),
      customer_of B (col_map Customers) (the (params_of B Customers x)))"

definition product_kv :: "builtins \<Rightarrow> csvrow \<Rightarrow> int \<times> product_row" where
  "product_kv B x =
     (the (csv_key B Products x),
      product_of B (col_map Products) (the (params_of B Products x)))"

definition order_kv :: "builtins \<Rightarrow> csvrow \<Rightarrow> int \<times> order_row" where
  "order_kv B x =
     (the (csv_key B Orders x),
      order_of B (col_map Orders) (the (params_of B Orders x)))"

definition item_kv :: "builtins \<Rightarrow> csvrow \<Rightarrow> int \<times> item_row" where
  "item_kv B x =
     (the (csv_key B Order_items x),
      item_of B (col_map Order_items) (the (params_of B Order_items x)))"

definition review_kv :: "builtins \<Rightarrow> csvrow \<Rightarrow> int \<times> review_row" where
  "review_kv B x =
     (the (csv_key B Reviews x),
      review_of B (col_map Reviews) (the (params_of B Reviews x)))"

text \<open>In the table \<open>t\<close> of customers, the email of a row of the file is found under the key of
  that row only.\<close>

definition emails_owned :: "builtins \<Rightarrow> csvrow list \<Rightarrow> customer_row table \<Rightarrow> bool" where
  "emails_owned B rows t =
     (\<forall>x\<in>set rows. \<forall>p\<in>set t.
        csv_email B x \<noteq> SqlNull \<longrightarrow> c_email (snd p) = csv_email B x \<longrightarrow>
        fst p = fst (customer_kv B x))"

text \<open>The rows that the loop loads for table \<open>t\<close>: none when the file is missing.\<close>

definition rows_of :: "data_dir \<Rightarrow> table_name \<Rightarrow> csvrow list" where
  "rows_of dir t = (case dir t of None \<Rightarrow> [] | Some rows \<Rightarrow> rows)"

text \<open>The loop over the tables, on the store alone.\<close>

definition load_stores :: "builtins \<Rightarrow> data_dir \<Rightarrow> store \<Rightarrow> table_name list \<Rightarrow> error + store" where
  "load_stores B dir st ts = for_each (\<lambda>st t. for_each (put_row B t) st (rows_of dir t)) st ts"

text \<open>Only \<^verbatim>\<open>products.csv\<close>, whose header has no \<^verbatim>\<open>product_id\<close> column.\<close>

definition nokey_dir :: data_dir where
  "nokey_dir t =
     (case t of
        Products \<Rightarrow> Some
          [[''name'' \<mapsto> Some ''Pen'', ''category'' \<mapsto> Some ''Home'', ''price'' \<mapsto> Some ''10.0'',
            ''sku'' \<mapsto> Some ''SKU-000001'']]
      | _ \<Rightarrow> None)"

text \<open>Two customers with the same email, and an order of the second.\<close>

definition shared_email_dir :: data_dir where
  "shared_email_dir t =
     (case t of
        Customers \<Rightarrow> Some
          [customer_csv ''1'' ''Ann'' ''ann@x.org'' ''1 Elm Street'' ''2024-01-01'',
           customer_csv ''2'' ''Bob'' ''ann@x.org'' ''2 Oak Street'' ''2024-01-02'']
      | Orders \<Rightarrow> Some [order_csv ''10'' ''2'' ''2024-02-01'' ''20.0'' ''completed'']
      | _ \<Rightarrow> None)"

text \<open>Only \<^verbatim>\<open>reviews.csv\<close>, with one review whose id is no whole number and whose other
  fields are empty.\<close>

definition review_dir :: data_dir where
  "review_dir t =
     (case t of
        Reviews \<Rightarrow> Some [[''review_id'' \<mapsto> Some ''7.5'', ''rating'' \<mapsto> Some []]]
      | _ \<Rightarrow> None)"

text \<open>
  A shop whose amounts are not whole cents: one customer, two products, three orders of the
  customer (two completed, one cancelled) and two items, both of order 1. The line totals of
  order 1 are 9.998046875 and 20, so their sum, 29.998046875, is not a value of two
  decimals, and the total that \<^verbatim>\<open>orders.csv\<close> carries for order 1 is another number
  altogether. Order 2 has no item and the total 19.99609375.
\<close>

definition fine_dir :: data_dir where
  "fine_dir t =
     (case t of
        Customers \<Rightarrow> Some [customer_csv ''1'' ''Ann'' ''ann@x.org'' ''1 Elm Street'' ''2024-01-01'']
      | Products \<Rightarrow> Some
          [product_csv ''1'' ''Pen'' ''Home'' ''9.998046875'' ''SKU-000001'',
           product_csv ''2'' ''Ink'' ''Home'' ''20.0'' ''SKU-000002'']
      | Orders \<Rightarrow> Some
          [order_csv ''1'' ''1'' ''2024-02-01'' ''99.0'' ''completed'',
           order_csv ''2'' ''1'' ''2024-03-01'' ''19.99609375'' ''completed'',
           order_csv ''3'' ''1'' ''2024-04-01'' ''100.0'' ''cancelled'']
      | Order_items \<Rightarrow> Some
          [item_csv ''1'' ''1'' ''1'' ''1'' ''9.998046875'' ''9.998046875'',
           item_csv ''2'' ''1'' ''2'' ''1'' ''20.0'' ''20.0'']
      | Reviews \<Rightarrow> None)"

text \<open>
  A database left by an earlier load, in which order 1 has an item, and a data directory
  that holds \<^verbatim>\<open>orders.csv\<close> only, with another total for order 1.
\<close>

definition stale_store :: store where
  "stale_store =
     \<lparr>customers =
        [(1, \<lparr>c_name = SqlText ''Ann'', c_email = SqlText ''ann@x.org'',
              c_address = SqlText ''1 Elm Street'', c_join_date = SqlText ''2024-01-01''\<rparr>)],
      products =
        [(1, \<lparr>p_name = SqlText ''Pen'', p_category = SqlText ''Home'',
              p_price = SqlReal (Fin 10), p_sku = SqlText ''SKU-000001''\<rparr>)],
      orders =
        [(1, \<lparr>o_customer_id = SqlInt 1, o_order_date = SqlText ''2024-02-01'',
              o_total = SqlReal (Fin 30), o_status = SqlText ''completed''\<rparr>)],
      order_items =
        [(1, \<lparr>i_order_id = SqlInt 1, i_product_id = SqlInt 1, i_quantity = SqlInt 3,
              i_unit_price = SqlReal (Fin 10), i_line_total = SqlReal (Fin 30)\<rparr>)],
      reviews = []\<rparr>"

definition stale_dir :: data_dir where
  "stale_dir t =
     (case t of
        Orders \<Rightarrow> Some [order_csv ''1'' ''1'' ''2024-02-01'' ''99.0'' ''completed'']
      | _ \<Rightarrow> None)"

section \<open>Properties of the pipeline\<close>

subsection \<open>The loop over the tables\<close>

text \<open>What a load does to the store, and whether it raises, depends on the store only, not
  on what was logged before.\<close>

lemma load_table_conn:
  assumes "conn s = conn s'"
  shows "map_sum id conn (load_table B dir s t) = map_sum id conn (load_table B dir s' t)"
  using assms by (auto simp: load_table_def split: option.splits sum.splits)

lemma load_all_conn:
  "conn s = conn s' \<Longrightarrow>
   fst (load_all B dir s ts) = fst (load_all B dir s' ts) \<and>
   conn (snd (load_all B dir s ts)) = conn (snd (load_all B dir s' ts))"
proof (induction ts arbitrary: s s')
  case Nil
  then show ?case by simp
next
  case (Cons t ts)
  have eq: "map_sum id conn (load_table B dir s t) = map_sum id conn (load_table B dir s' t)"
    using Cons.prems by (rule load_table_conn)
  show ?case
  proof (cases "load_table B dir s t")
    case (Inl e)
    with eq have "load_table B dir s' t = Inl e"
      by (cases "load_table B dir s' t") auto
    with Inl Cons.prems show ?thesis by simp
  next
    case (Inr u)
    with eq obtain u' where u': "load_table B dir s' t = Inr u'" "conn u = conn u'"
      by (cases "load_table B dir s' t") auto
    from Cons.IH [OF u'(2)] Inr u'(1) show ?thesis by simp
  qed
qed

lemma conn_open_db_replace: "conn (open_db dbf True) = empty_store"
  by (cases dbf) (simp_all add: open_db_def)

lemma conn_open_db_fresh: "conn (open_db None replace) = empty_store"
  by (simp add: open_db_def)

subsection \<open>Replace semantics\<close>

text \<open>
  Claim C8. Run with the replace option against any database file, existing or not, the
  pipeline ends in the same store, with the same exception if any and the same report, as a
  run without the option where no database file exists: nothing of the prior store is left.
\<close>

theorem replace_equals_fresh:
  "failure (ingest B dir dbf True w) = failure (ingest B dir None False w) \<and>
   db (ingest B dir dbf True w) = db (ingest B dir None False w) \<and>
   report (ingest B dir dbf True w) = report (ingest B dir None False w)"
proof -
  have c: "conn (open_db dbf True) = conn (open_db None False)"
    by (simp add: conn_open_db_replace conn_open_db_fresh)
  from load_all_conn [OF c, of B dir tables]
  show ?thesis
    by (cases "load_all B dir (open_db dbf True) tables";
        cases "load_all B dir (open_db None False) tables")
       (auto simp: ingest_def Let_def split: option.splits)
qed

subsection \<open>Type conversion\<close>

lemma py_float_TypeError: "py_float B v = Inl e \<Longrightarrow> truthy v \<Longrightarrow> e = ValueError"
  by (cases v) (auto split: option.splits)

lemma coerce_float_ok: "\<exists>r'. coerce_float B r c = Inr r' \<and> (\<forall>c'. c' \<noteq> c \<longrightarrow> r' c' = r c')"
proof (cases "r c")
  case None
  then show ?thesis by (simp add: coerce_float_def)
next
  case (Some v)
  show ?thesis
  proof (cases "truthy v")
    case False
    with Some show ?thesis by (simp add: coerce_float_def)
  next
    case True
    show ?thesis
    proof (cases "py_float B v")
      case (Inl e)
      with True have "e = ValueError" by (simp add: py_float_TypeError)
      with Inl Some True show ?thesis by (simp add: coerce_float_def)
    next
      case (Inr f)
      with Some True show ?thesis by (simp add: coerce_float_def)
    qed
  qed
qed

lemma for_each_coerce_float_ok:
  "\<exists>r'. for_each (coerce_float B) r cs = Inr r' \<and> (\<forall>c. c \<notin> set cs \<longrightarrow> r' c = r c)"
proof (induction cs arbitrary: r)
  case Nil
  show ?case by simp
next
  case (Cons c cs)
  obtain r1 where r1: "coerce_float B r c = Inr r1" "\<forall>c'. c' \<noteq> c \<longrightarrow> r1 c' = r c'"
    using coerce_float_ok by blast
  obtain r2 where r2: "for_each (coerce_float B) r1 cs = Inr r2" "\<forall>c. c \<notin> set cs \<longrightarrow> r2 c = r1 c"
    using Cons.IH by blast
  from r1 r2 show ?case by auto
qed

lemma coerce_int_eq:
  assumes "no_inf B (r c)"
  shows "coerce_int B r c = Inr (\<lambda>c'. if c' = c then map_option (int_cell B) (r c) else r c')"
proof (cases "r c")
  case None
  then show ?thesis by (auto simp: coerce_int_def)
next
  case (Some v)
  show ?thesis
  proof (cases "truthy v")
    case False
    with Some show ?thesis by (auto simp: coerce_int_def int_cell_def)
  next
    case True
    show ?thesis
    proof (cases "py_float B v")
      case (Inl e)
      with True have "e = ValueError" by (simp add: py_float_TypeError)
      with Inl Some True show ?thesis by (auto simp: coerce_int_def int_cell_def)
    next
      case (Inr f)
      with assms Some True have "f \<noteq> PInf" "f \<noteq> NInf" by (auto simp: no_inf_def)
      with Inr Some True show ?thesis
        by (cases f) (auto simp: coerce_int_def int_cell_def fun_upd_def)
    qed
  qed
qed

lemma for_each_coerce_int_eq:
  assumes "distinct cs" "\<forall>c\<in>set cs. no_inf B (r c)"
  shows "for_each (coerce_int B) r cs =
         Inr (\<lambda>c. if c \<in> set cs then map_option (int_cell B) (r c) else r c)"
  using assms
proof (induction cs arbitrary: r)
  case Nil
  show ?case by simp
next
  case (Cons c cs)
  let ?r1 = "\<lambda>c'. if c' = c then map_option (int_cell B) (r c) else r c'"
  have 1: "coerce_int B r c = Inr ?r1"
    using Cons.prems by (simp add: coerce_int_eq)
  have 2: "\<forall>c'\<in>set cs. no_inf B (?r1 c')"
    using Cons.prems by auto
  have "for_each (coerce_int B) ?r1 cs =
        Inr (\<lambda>c'. if c' \<in> set cs then map_option (int_cell B) (?r1 c') else ?r1 c')"
    using Cons.prems 2 by (intro Cons.IH) auto
  with 1 Cons.prems show ?case by (auto simp: fun_eq_iff)
qed

lemma int_cell_row_dict:
  "map_option (int_cell B) (row_dict x c) = map_option (spec_int_cell B) (x c)"
  by (auto simp: row_dict_def int_cell_def spec_int_cell_def split: option.splits flt.splits)

lemma no_inf_row_dict:
  "no_inf B (row_dict x c) \<longleftrightarrow>
   (\<forall>s. x c = Some (Some s) \<longrightarrow> s \<noteq> [] \<longrightarrow> py_float_str B s \<noteq> Some PInf \<and> py_float_str B s \<noteq> Some NInf)"
  by (auto simp: row_dict_def no_inf_def split: option.splits)

text \<open>One row: the conversion raises nothing and leaves in the six columns what the
  specification describes, and the review id as it was.\<close>

lemma coerce_row_integer_columns:
  assumes "\<forall>c\<in>set int_cols. \<forall>s. x c = Some (Some s) \<longrightarrow> s \<noteq> [] \<longrightarrow>
             py_float_str B s \<noteq> Some PInf \<and> py_float_str B s \<noteq> Some NInf"
  shows "\<exists>r. coerce_row B (row_dict x) = Inr r \<and>
           (\<forall>c\<in>set int_cols. r c = map_option (spec_int_cell B) (x c)) \<and>
           r ''review_id'' = row_dict x ''review_id''"
proof -
  let ?r1 = "\<lambda>c. if c \<in> set int_cols then map_option (int_cell B) (row_dict x c) else row_dict x c"
  have d: "distinct int_cols" by (simp add: int_cols_def)
  have "\<forall>c\<in>set int_cols. no_inf B (row_dict x c)"
    using assms by (simp add: no_inf_row_dict)
  with d have 1: "for_each (coerce_int B) (row_dict x) int_cols = Inr ?r1"
    by (rule for_each_coerce_int_eq)
  obtain r where r: "for_each (coerce_float B) ?r1 float_cols = Inr r"
      "\<forall>c. c \<notin> set float_cols \<longrightarrow> r c = ?r1 c"
    using for_each_coerce_float_ok by blast
  have disj: "\<forall>c\<in>set int_cols. c \<notin> set float_cols"
    by (simp add: int_cols_def float_cols_def)
  have rid: "''review_id'' \<notin> set float_cols" "''review_id'' \<notin> set int_cols"
    by (simp_all add: int_cols_def float_cols_def)
  have "coerce_row B (row_dict x) = Inr r"
    using 1 r(1) by (simp add: coerce_row_def)
  moreover have "\<forall>c\<in>set int_cols. r c = map_option (spec_int_cell B) (x c)"
    using r(2) disj by (simp add: int_cell_row_dict)
  moreover have "r ''review_id'' = row_dict x ''review_id''"
    using r(2) rid by simp
  ultimately show ?thesis by blast
qed

text \<open>The literals of the examples.\<close>

lemma f1: "float_lit ''3.0'' = Some (Fin 3)"
  by code_simp
lemma f2: "float_lit ''abc'' = None"
  by code_simp
lemma t3: "trunc 3 = 3"
  by (simp add: trunc_def)

lemma coerce_rows_all2:
  assumes "\<forall>x\<in>set rows. \<exists>r. coerce_row B (row_dict x) = Inr r \<and> Q x r"
  shows "\<exists>rs. coerce_rows B (map row_dict rows) = Inr rs \<and> list_all2 Q rows rs"
  using assms
proof (induction rows)
  case Nil
  show ?case by simp
next
  case (Cons x xs)
  from Cons.prems obtain r where r: "coerce_row B (row_dict x) = Inr r" "Q x r" by auto
  from Cons.IH Cons.prems obtain rs where
    rs: "coerce_rows B (map row_dict xs) = Inr rs" "list_all2 Q xs rs"
    by auto
  from r rs have "coerce_rows B (map row_dict (x # xs)) = Inr (r # rs) \<and> list_all2 Q (x # xs) (r # rs)"
    by simp
  then show ?case by blast
qed

text \<open>
  The six columns of the first inner loop. In the rows of a file as the reader yields them,
  with no text in the columns customer_id, product_id, order_id, order_item_id, rating and
  quantity that parses to an infinity, the type conversion of the batch raises nothing, and
  it leaves in each of these six columns of each row the text parsed as a number and
  truncated to an integer, or the original text where it is empty or no number. The column
  review_id is not among the six: it keeps its text.
\<close>

lemma coerce_listed_columns:
  assumes "\<forall>x\<in>set rows. \<forall>c\<in>set int_cols. \<forall>s. x c = Some (Some s) \<longrightarrow> s \<noteq> [] \<longrightarrow>
             py_float_str B s \<noteq> Some PInf \<and> py_float_str B s \<noteq> Some NInf"
  shows "\<exists>rs. coerce_rows B (map row_dict rows) = Inr rs \<and>
           list_all2 (\<lambda>x r. (\<forall>c\<in>set int_cols. r c = map_option (spec_int_cell B) (x c)) \<and>
                             r ''review_id'' = row_dict x ''review_id'') rows rs"
proof (rule coerce_rows_all2, rule ballI)
  fix x
  assume "x \<in> set rows"
  with assms have "\<forall>c\<in>set int_cols. \<forall>s. x c = Some (Some s) \<longrightarrow> s \<noteq> [] \<longrightarrow>
             py_float_str B s \<noteq> Some PInf \<and> py_float_str B s \<noteq> Some NInf"
    by blast
  from coerce_row_integer_columns [OF this]
  show "\<exists>r. coerce_row B (row_dict x) = Inr r \<and>
           ((\<forall>c\<in>set int_cols. r c = map_option (spec_int_cell B) (x c)) \<and>
            r ''review_id'' = row_dict x ''review_id'')"
    by blast
qed

text \<open>The specification's example: the quantity ``3.0'' becomes the integer 3, a rating
  that is no number keeps its text, and so does a review id.\<close>

lemma demo_row_coerced:
  "py_float_str lit_builtins ''3.0'' = Some (Fin 3) \<and>
   py_float_str lit_builtins ''abc'' = None \<and>
   (\<exists>rs. coerce_rows lit_builtins (map row_dict [demo_row]) = Inr rs \<and>
        map (\<lambda>r. r ''quantity'') rs = [Some (PyInt 3)] \<and>
        map (\<lambda>r. r ''rating'') rs = [Some (PyStr ''abc'')] \<and>
        map (\<lambda>r. r ''review_id'') rs = [Some (PyStr ''7.0'')])"
proof -
  have h: "\<forall>x\<in>set [demo_row]. \<forall>c\<in>set int_cols. \<forall>s. x c = Some (Some s) \<longrightarrow> s \<noteq> [] \<longrightarrow>
       py_float_str lit_builtins s \<noteq> Some PInf \<and> py_float_str lit_builtins s \<noteq> Some NInf"
    by (simp add: int_cols_def demo_row_def lit_builtins_def f1 f2)
  from coerce_listed_columns [OF h] obtain rs where
    rs: "coerce_rows lit_builtins (map row_dict [demo_row]) = Inr rs"
        "list_all2 (\<lambda>x r. (\<forall>c\<in>set int_cols. r c = map_option (spec_int_cell lit_builtins) (x c)) \<and>
                             r ''review_id'' = row_dict x ''review_id'') [demo_row] rs"
    by blast
  from rs(2) obtain r where r: "rs = [r]"
      "\<forall>c\<in>set int_cols. r c = map_option (spec_int_cell lit_builtins) (demo_row c)"
      "r ''review_id'' = row_dict demo_row ''review_id''"
    by (auto simp: list_all2_Cons1)
  from r(2) have "r ''quantity'' = Some (PyInt 3)" "r ''rating'' = Some (PyStr ''abc'')"
    by (simp_all add: int_cols_def demo_row_def spec_int_cell_def lit_builtins_def f1 f2 t3)
  moreover from r(3) have "r ''review_id'' = Some (PyStr ''7.0'')"
    by (simp add: demo_row_def row_dict_def)
  moreover have "py_float_str lit_builtins ''3.0'' = Some (Fin 3)"
      "py_float_str lit_builtins ''abc'' = None"
    by (simp_all add: lit_builtins_def f1 f2)
  ultimately show ?thesis using rs(1) r(1) by simp
qed

lemma review_7_5:
  "spec_int_cell lit_builtins (Some ''7.5'') = PyInt 7 \<and>
   failure (ingest lit_builtins review_dir None False False) = Some DatatypeMismatch"
  by code_simp

lemma f3: "float_lit ''7.5'' = Some (Fin (15 / 2))"
  by code_simp

lemma t7: "trunc (15 / 2) = 7"
  by code_simp

text \<open>
  Claim C4. The code does not do what the claim says, in two places.

  The list of the first inner loop holds every column that the schema declares INTEGER but
  one, \<^verbatim>\<open>review_id\<close>. The text ``7.5'' in the column \<^verbatim>\<open>order_id\<close> is parsed and truncated
  to the integer 7; the same text in the column \<^verbatim>\<open>review_id\<close> is left as it is, where the
  claim has it truncated to 7. The store then receives a text that is no integer for an
  INTEGER PRIMARY KEY, and the run ends with a datatype mismatch.

  A text that parses to an infinity in one of the listed columns, such as the quantity
  ``inf'', makes \<^verbatim>\<open>int(float(r[col]))\<close> raise OverflowError, which \<^verbatim>\<open>except ValueError\<close>
  does not catch: the conversion ends the batch, where the claim has the text retained.
\<close>

theorem integer_coercion_divergence:
  "(\<exists>r. coerce_row lit_builtins (row_dict [''order_id'' \<mapsto> Some ''7.5'']) = Inr r \<and>
        r ''order_id'' = Some (PyInt 7)) \<and>
   spec_int_cell lit_builtins (Some ''7.5'') = PyInt 7 \<and>
   coerce_row lit_builtins (row_dict [''review_id'' \<mapsto> Some ''7.5'', ''rating'' \<mapsto> Some []]) =
     Inr (row_dict [''review_id'' \<mapsto> Some ''7.5'', ''rating'' \<mapsto> Some []]) \<and>
   row_dict [''review_id'' \<mapsto> Some ''7.5'', ''rating'' \<mapsto> Some []] ''review_id'' =
     Some (PyStr ''7.5'') \<and>
   failure (ingest lit_builtins review_dir None False False) = Some DatatypeMismatch \<and>
   coerce_row lit_builtins (row_dict [''quantity'' \<mapsto> Some ''inf'']) = Inl OverflowError"
proof -
  have 1: "\<exists>r. coerce_row lit_builtins (row_dict [''order_id'' \<mapsto> Some ''7.5'']) = Inr r \<and>
        r ''order_id'' = Some (PyInt 7)"
    by (simp add: coerce_row_def coerce_int_def coerce_float_def int_cols_def float_cols_def
        row_dict_def lit_builtins_def f3 t7)
  have 2: "coerce_row lit_builtins (row_dict [''review_id'' \<mapsto> Some ''7.5'', ''rating'' \<mapsto> Some []]) =
     Inr (row_dict [''review_id'' \<mapsto> Some ''7.5'', ''rating'' \<mapsto> Some []])"
    by (simp add: coerce_row_def coerce_int_def coerce_float_def int_cols_def float_cols_def
        row_dict_def)
  have 3: "row_dict [''review_id'' \<mapsto> Some ''7.5'', ''rating'' \<mapsto> Some []] ''review_id'' =
     Some (PyStr ''7.5'')"
    by (simp add: row_dict_def)
  have 4: "coerce_row lit_builtins (row_dict [''quantity'' \<mapsto> Some ''inf'']) = Inl OverflowError"
    by (simp add: coerce_row_def coerce_int_def int_cols_def row_dict_def lit_builtins_def
        float_lit_def)
  from 1 2 3 4 review_7_5 show ?thesis by (intro conjI) simp_all
qed

subsection \<open>The order of the steps\<close>

lemma load_table_log:
  "load_table B dir s t = Inr s' \<Longrightarrow> \<exists>ev. log s' = log s @ [ev] \<and> load_event t ev"
  by (auto simp: load_table_def split: option.splits if_splits sum.splits)

lemma load_all_log:
  "load_all B dir s ts = (eo, s') \<Longrightarrow>
   \<exists>evs. log s' = log s @ evs \<and> list_all2 load_event (take (length evs) ts) evs \<and>
         (eo = None \<longrightarrow> length evs = length ts)"
proof (induction ts arbitrary: s)
  case Nil
  then show ?case by auto
next
  case (Cons t ts)
  show ?case
  proof (cases "load_table B dir s t")
    case (Inl e)
    with Cons.prems show ?thesis by auto
  next
    case (Inr s1)
    with Cons.prems have "load_all B dir s1 ts = (eo, s')" by simp
    from Cons.IH [OF this] obtain evs where
      evs: "log s' = log s1 @ evs" "list_all2 load_event (take (length evs) ts) evs"
           "eo = None \<longrightarrow> length evs = length ts"
      by blast
    from load_table_log [OF Inr] obtain ev where ev: "log s1 = log s @ [ev]" "load_event t ev"
      by blast
    have "log s' = log s @ (ev # evs)" using evs(1) ev(1) by simp
    moreover have "list_all2 load_event (take (length (ev # evs)) (t # ts)) (ev # evs)"
      using evs(2) ev(2) by simp
    moreover have "eo = None \<longrightarrow> length (ev # evs) = length (t # ts)"
      using evs(3) by simp
    ultimately show ?thesis by blast
  qed
qed

lemma load_event_not_update: "load_event t ev \<Longrightarrow> ev \<noteq> Update_totals \<and> ev \<noteq> Wrote_ltv \<and> ev \<noteq> Removed_db"
  by (cases ev) auto

lemma load_events_count:
  "list_all2 load_event ts evs \<Longrightarrow> count_list evs Update_totals = 0 \<and> Wrote_ltv \<notin> set evs"
  by (induction ts evs rule: list_all2_induct) (auto dest: load_event_not_update)

lemma log_open_db: "log (open_db dbf rep) = (if rep \<and> dbf \<noteq> None then [Removed_db] else [])"
  by (simp add: open_db_def Let_def)

lemma count_list_app: "count_list (xs @ ys) x = count_list xs x + count_list ys x"
  by (induction xs) auto

text \<open>
  Claim C9, as amended. A run executes the update of the totals once when no load raises,
  and never when one does. In a run that no load raises in, the log is: the removal of the
  old file if any, one load event for each of the five tables in their order, the update,
  then the report if it was asked for. So the update comes after all loads and before the
  report.
\<close>

theorem update_totals_once:
  "count_list (events (ingest B dir dbf rep w)) Update_totals =
     (if failure (ingest B dir dbf rep w) = None then 1 else 0) \<and>
   (failure (ingest B dir dbf rep w) = None \<longrightarrow>
      (\<exists>evs. list_all2 load_event tables evs \<and>
         events (ingest B dir dbf rep w) =
           (if rep \<and> dbf \<noteq> None then [Removed_db] else []) @ evs @
           Update_totals # (if w then [Wrote_ltv] else [])))"
proof -
  obtain eo s where la: "load_all B dir (open_db dbf rep) tables = (eo, s)"
    by (cases "load_all B dir (open_db dbf rep) tables")
  from load_all_log [OF la] obtain evs where
    evs: "log s = log (open_db dbf rep) @ evs" "list_all2 load_event (take (length evs) tables) evs"
         "eo = None \<longrightarrow> length evs = length tables"
    by blast
  from load_events_count [OF evs(2)]
  have c0: "count_list evs Update_totals = 0" by simp
  have cl: "count_list (log s) Update_totals = 0"
    using evs(1) c0 by (simp add: count_list_app log_open_db)
  show ?thesis
  proof (cases eo)
    case (Some e)
    with la cl show ?thesis by (simp add: ingest_def)
  next
    case None
    with evs(3) evs(2) have all: "list_all2 load_event tables evs" by simp
    from None la cl evs(1) all show ?thesis
      by (auto simp: ingest_def Let_def count_list_app log_open_db)
  qed
qed

lemma shop_ok: "failure (ingest lit_builtins shop_dir None False True) = None"
  by code_simp

theorem update_totals_once_witness:
  "failure (ingest lit_builtins shop_dir None False True) = None \<and>
   count_list (events (ingest lit_builtins shop_dir None False True)) Update_totals = 1 \<and>
   (\<exists>evs. list_all2 load_event tables evs \<and>
      events (ingest lit_builtins shop_dir None False True) = evs @ [Update_totals, Wrote_ltv])"
  using update_totals_once [of lit_builtins shop_dir None False True] shop_ok
  by simp

text \<open>
  Claim C9 as stated fails on a run that a load aborts: a key that is no integer is a datatype
  mismatch for the INTEGER PRIMARY KEY, the exception leaves the loop, and the update is not
  executed at all.
\<close>

theorem aborted_run_counterexample:
  "failure (ingest lit_builtins bad_key_dir None False False) = Some DatatypeMismatch \<and>
   count_list (events (ingest lit_builtins bad_key_dir None False False)) Update_totals = 0"
  by code_simp

subsection \<open>Missing and empty files\<close>

lemma load_table_skip:
  assumes "dir t = None \<or> dir t = Some []"
  shows "load_table B dir s t = Inr (s\<lparr>log := log s @ [if dir t = None then Skip_missing t else Skip_empty t]\<rparr>)"
  using assms by (auto simp: load_table_def)

lemma load_all_skip:
  assumes "dir t = None \<or> dir t = Some []"
  shows "fst (load_all B dir s ts) = fst (load_all B dir s (removeAll t ts)) \<and>
         conn (snd (load_all B dir s ts)) = conn (snd (load_all B dir s (removeAll t ts)))"
proof (induction ts arbitrary: s)
  case Nil
  show ?case by simp
next
  case (Cons u ts)
  show ?case
  proof (cases "u = t")
    case True
    let ?s1 = "s\<lparr>log := log s @ [if dir t = None then Skip_missing t else Skip_empty t]\<rparr>"
    have "conn ?s1 = conn s" by simp
    from load_all_conn [OF this, of B dir "removeAll t ts"] Cons.IH [of ?s1] True
      load_table_skip [of dir t B s, OF assms]
    show ?thesis by simp
  next
    case False
    then show ?thesis using Cons.IH
      by (cases "load_table B dir s u") simp_all
  qed
qed

lemma failure_ingest: "failure (ingest B dir dbf rep w) = fst (load_all B dir (open_db dbf rep) tables)"
  by (cases "load_all B dir (open_db dbf rep) tables")
     (auto simp: ingest_def Let_def split: option.splits)

text \<open>
  Claim C5, as amended. The pass of the loop for a table whose file is missing or has no rows
  raises nothing and changes nothing in the store: it only logs the skip. The loop goes on,
  and the run raises exactly what the loads of the other tables raise, leaving the store they
  leave.
\<close>

theorem skipped_file:
  assumes "dir t = None \<or> dir t = Some []"
  shows "(\<exists>ev. load_table B dir s t = Inr (s\<lparr>log := log s @ [ev]\<rparr>)) \<and>
         failure (ingest B dir dbf rep w) =
           fst (load_all B dir (open_db dbf rep) (removeAll t tables)) \<and>
         conn (snd (load_all B dir (open_db dbf rep) tables)) =
           conn (snd (load_all B dir (open_db dbf rep) (removeAll t tables)))"
proof -
  have "\<exists>ev. load_table B dir s t = Inr (s\<lparr>log := log s @ [ev]\<rparr>)"
    using load_table_skip [of dir t B s, OF assms] by blast
  then show ?thesis
    using load_all_skip [of dir t B "open_db dbf rep" tables, OF assms]
    by (simp add: failure_ingest)
qed

theorem skipped_file_witness:
  "(shop_dir Reviews = None \<or> shop_dir Reviews = Some []) \<and>
   failure (ingest lit_builtins shop_dir None False True) = None \<and>
   fst (load_all lit_builtins shop_dir (open_db None False) [Customers, Products, Orders, Order_items]) = None"
proof -
  have h: "shop_dir Reviews = None \<or> shop_dir Reviews = Some []"
    by (simp add: shop_dir_def)
  from skipped_file [of shop_dir Reviews lit_builtins _ None False True, OF h] shop_ok h
  show ?thesis by (simp add: tables_def)
qed

text \<open>
  Claim C5 as stated fails when the skipped table is a parent: with \<^verbatim>\<open>customers.csv\<close>
  missing and a fresh store, the first row of \<^verbatim>\<open>orders.csv\<close> references a customer that
  does not exist, and the foreign key, which the pipeline switches on, ends the run with an
  exception.
\<close>

theorem missing_parent_counterexample:
  "orphan_dir Customers = None \<and>
   failure (ingest lit_builtins orphan_dir None False False) = Some ForeignKeyFailed"
  by code_simp

subsection \<open>The totals\<close>

lemma db_ingest_ok:
  "failure (ingest B dir dbf rep w) = None \<Longrightarrow>
   db (ingest B dir dbf rep w) = update_totals B (conn (snd (load_all B dir (open_db dbf rep) tables)))"
  by (cases "load_all B dir (open_db dbf rep) tables")
     (auto simp: ingest_def Let_def split: option.splits)

lemma items_of_update_totals [simp]: "items_of (update_totals B st) k = items_of st k"
  by (simp add: items_of_def update_totals_def)

lemma order_items_update_totals [simp]: "order_items (update_totals B st) = order_items st"
  by (simp add: update_totals_def)

lemma customers_update_totals [simp]: "customers (update_totals B st) = customers st"
  by (simp add: update_totals_def)


lemma kept_order:
  assumes "(k, r) \<in> set (orders st)" "items_of st k = []"
  shows "(k, r) \<in> set (orders (update_totals B st))"
  using assms by (force simp: update_totals_def)

lemma filter_reals [simp]: "filter (\<lambda>v. v \<noteq> SqlNull) (map SqlReal fs) = map SqlReal fs"
  by (induction fs) simp_all

lemma sql_sum_reals:
  assumes "fs \<noteq> []"
  shows "sql_sum B (map SqlReal fs) = result_double (sql_sum_real B (map SqlReal fs))"
proof -
  have "\<not> list_all is_int (map SqlReal fs)"
    using assms by (cases fs) simp_all
  with assms show ?thesis
    by (simp add: sql_sum_def del: map_map)
qed

lemma aff_real_result_double [simp]: "aff_real B (result_double f) = result_double f"
  by (simp add: result_double_def)



text \<open>The store that the example data leave in a fresh database.\<close>

lemma shop_db:
  "db (ingest lit_builtins shop_dir None False True) =
   \<lparr>customers =
      [(1, \<lparr>c_name = SqlText ''Ann'', c_email = SqlText ''ann@x.org'',
            c_address = SqlText ''1 Elm Street'', c_join_date = SqlText ''2024-01-01''\<rparr>),
       (2, \<lparr>c_name = SqlText ''Bob'', c_email = SqlText ''bob@x.org'',
            c_address = SqlText ''2 Oak Street'', c_join_date = SqlText ''2024-01-02''\<rparr>)],
    products =
      [(1, \<lparr>p_name = SqlText ''Pen'', p_category = SqlText ''Home'',
            p_price = SqlReal (Fin 10), p_sku = SqlText ''SKU-000001''\<rparr>)],
    orders =
      [(1, \<lparr>o_customer_id = SqlInt 1, o_order_date = SqlText ''2024-02-01'',
            o_total = SqlReal (Fin 30), o_status = SqlText ''completed''\<rparr>),
       (2, \<lparr>o_customer_id = SqlInt 1, o_order_date = SqlText ''2024-03-01'',
            o_total = SqlReal (Fin 20), o_status = SqlText ''completed''\<rparr>),
       (3, \<lparr>o_customer_id = SqlInt 1, o_order_date = SqlText ''2024-04-01'',
            o_total = SqlReal (Fin 100), o_status = SqlText ''cancelled''\<rparr>)],
    order_items =
      [(1, \<lparr>i_order_id = SqlInt 1, i_product_id = SqlInt 1, i_quantity = SqlInt 3,
            i_unit_price = SqlReal (Fin 10), i_line_total = SqlReal (Fin 30)\<rparr>)],
    reviews = []\<rparr>"
  by code_simp


lemma fine_orders:
  "orders (db (ingest lit_builtins fine_dir None False True)) =
      [(1, \<lparr>o_customer_id = SqlInt 1, o_order_date = SqlText ''2024-02-01'',
            o_total = SqlReal (Fin 30), o_status = SqlText ''completed''\<rparr>),
       (2, \<lparr>o_customer_id = SqlInt 1, o_order_date = SqlText ''2024-03-01'',
            o_total = SqlReal (Fin (5119 / 256)), o_status = SqlText ''completed''\<rparr>),
       (3, \<lparr>o_customer_id = SqlInt 1, o_order_date = SqlText ''2024-04-01'',
            o_total = SqlReal (Fin 100), o_status = SqlText ''cancelled''\<rparr>)]"
  by code_simp





subsection \<open>The report\<close>

lemma report_ingest:
  assumes "report (ingest B dir dbf rep w) = Some rows"
  shows "rows = ltv_query B (db (ingest B dir dbf rep w))"
  using assms
  by (cases "load_all B dir (open_db dbf rep) tables")
     (auto simp: ingest_def Let_def split: option.splits if_splits)

lemma mset_insert_desc: "mset (insert_desc x ys) = add_mset x (mset ys)"
  by (induction ys) simp_all

lemma mset_order_by_spend_desc: "mset (order_by_spend_desc rows) = mset rows"
  by (induction rows) (simp_all add: order_by_spend_desc_def mset_insert_desc)

lemma set_ltv_query: "set (ltv_query B st) = ltv_of B st ` set (customers st)"
proof -
  have "set (ltv_query B st) = set_mset (mset (ltv_query B st))" by simp
  also have "\<dots> = set_mset (mset (map (ltv_of B st) (customers st)))"
    by (simp only: ltv_query_def mset_order_by_spend_desc)
  finally show ?thesis by simp
qed

lemma customer_id_ltv_of [simp]: "customer_id (ltv_of B st c) = SqlInt (fst c)"
  by (simp add: ltv_of_def Let_def)


lemma sql_sum_Nil [simp]: "sql_sum B [] = SqlNull"
  by (simp add: sql_sum_def)

lemma sql_max_Nil [simp]: "sql_max [] = SqlNull"
  by (simp add: sql_max_def)








text \<open>
  Claim C7. The row of a customer in the report reads the completed orders of that customer
  and no other order: where their totals are the doubles \<open>fs\<close>, the spend is the library's
  floating-point sum of \<open>fs\<close>, the count is their number, and the average is the library's
  rounding to two decimals of the library's quotient of the sum by the number.
\<close>

theorem ltv_completed_orders:
  assumes "report (ingest B dir dbf rep w) = Some rows"
    and "row \<in> set rows"
    and "customer_id row = SqlInt k"
    and "distinct (map fst (orders (db (ingest B dir dbf rep w))))"
    and "map (\<lambda>p. o_total (snd p))
           (filter (\<lambda>p. refs (o_customer_id (snd p)) k \<and> o_status (snd p) = SqlText ''completed'')
              (orders (db (ingest B dir dbf rep w)))) = map SqlReal fs"
    and "fs \<noteq> []"
    and "s = sql_sum_real B (map SqlReal fs)"
    and "s \<noteq> NaN"
    and "q = sql_div_real B s (sql_int_real B (int (length fs)))"
    and "q \<noteq> NaN"
  shows "lifetime_spend row = SqlReal s \<and>
         orders_count row = SqlInt (int (length fs)) \<and>
         avg_order_value row = result_double (sql_round_real B q)"
proof -
  let ?st = "db (ingest B dir dbf rep w)"
  let ?os = "completed_orders ?st k"
  have "rows = ltv_query B ?st" using assms(1) by (rule report_ingest)
  with assms(2) obtain c where c: "c \<in> set (customers ?st)" "row = ltv_of B ?st c"
    by (auto simp: set_ltv_query)
  with assms(3) have k: "fst c = k" by simp
  have tot: "map (\<lambda>p. o_total (snd p)) ?os = map SqlReal fs"
    using assms(5) by (simp add: completed_orders_def)
  have len: "length ?os = length fs"
    using arg_cong [OF tot, of length] by simp
  have "distinct (map fst ?os)"
    using assms(4) by (simp add: completed_orders_def distinct_map_filter)
  then have n: "length (remdups (map fst ?os)) = length fs"
    using len by (simp add: distinct_remdups_id)
  have sm: "sql_sum B (map (\<lambda>p. o_total (snd p)) ?os) = SqlReal s"
    using assms(6,7,8) by (simp add: tot sql_sum_reals result_double_def)
  have dv: "sql_div_count B (SqlReal s) (length fs) = SqlReal q"
    using assms(9,10) by (simp add: sql_div_count_def result_double_def)
  have rd: "sql_round2 B (SqlReal q) = result_double (sql_round_real B q)"
    by (simp add: sql_round2_def)
  have pos: "length fs \<noteq> 0" using assms(6) by simp
  have ne: "?os \<noteq> []" using len pos by auto
  show ?thesis
    using pos ne by (simp add: c(2) k ltv_of_def Let_def sm n dv rd coalesce_def)
qed

text \<open>The report on the shop whose amounts are not whole cents: the spend 49.99609375 is
  the sum of 30 and 19.99609375, and its half, 24.998046875, rounds to 25.\<close>

lemma fine_report:
  "report (ingest lit_builtins fine_dir None False True) =
   Some [\<lparr>customer_id = SqlInt 1, name = SqlText ''Ann'', lifetime_spend = SqlReal (Fin (12799 / 256)),
           orders_count = SqlInt 2, avg_order_value = SqlReal (Fin 25),
           last_order_date = SqlText ''2024-03-01''\<rparr>]"
  by code_simp

lemma fine_spend: "sum_lit (map SqlReal [Fin 30, Fin (5119 / 256)]) = Fin (12799 / 256)"
  by code_simp

lemma fine_quotient: "div_lit (Fin (12799 / 256)) (int_real_lit 2) = Fin (12799 / 512)"
  by code_simp

lemma fine_average: "round_lit (Fin (12799 / 512)) = Fin 25"
  by code_simp

theorem ltv_completed_orders_witness:
  "map (\<lambda>p. (o_total (snd p), o_status (snd p)))
     (orders (db (ingest lit_builtins fine_dir None False True))) =
     [(SqlReal (Fin 30), SqlText ''completed''), (SqlReal (Fin (5119 / 256)), SqlText ''completed''),
      (SqlReal (Fin 100), SqlText ''cancelled'')] \<and>
   sql_div_real lit_builtins (Fin (12799 / 256)) (sql_int_real lit_builtins 2) = Fin (12799 / 512) \<and>
   (\<exists>row\<in>set (the (report (ingest lit_builtins fine_dir None False True))).
      customer_id row = SqlInt 1 \<and> lifetime_spend row = SqlReal (Fin (12799 / 256)) \<and>
      orders_count row = SqlInt 2 \<and> avg_order_value row = SqlReal (Fin 25))"
proof -
  let ?out = "ingest lit_builtins fine_dir None False True"
  let ?ann = "\<lparr>customer_id = SqlInt 1, name = SqlText ''Ann'',
           lifetime_spend = SqlReal (Fin (12799 / 256)),
           orders_count = SqlInt 2, avg_order_value = SqlReal (Fin 25),
           last_order_date = SqlText ''2024-03-01''\<rparr>"
  have m: "?ann \<in> set [?ann]" by simp
  have i: "customer_id ?ann = SqlInt 1" by simp
  have d: "distinct (map fst (orders (db ?out)))" by (simp add: fine_orders)
  have t: "map (\<lambda>p. o_total (snd p))
           (filter (\<lambda>p. refs (o_customer_id (snd p)) 1 \<and> o_status (snd p) = SqlText ''completed'')
              (orders (db ?out))) = map SqlReal [Fin 30, Fin (5119 / 256)]"
    by (simp add: fine_orders)
  have n: "[Fin 30, Fin (5119 / 256)] \<noteq> []" by simp
  have s: "Fin (12799 / 256) = sql_sum_real lit_builtins (map SqlReal [Fin 30, Fin (5119 / 256)])"
    using fine_spend by (simp add: lit_builtins_def)
  have q: "Fin (12799 / 512) =
           sql_div_real lit_builtins (Fin (12799 / 256))
             (sql_int_real lit_builtins (int (length [Fin 30, Fin (5119 / 256)])))"
    using fine_quotient by (simp add: lit_builtins_def)
  have q': "sql_div_real lit_builtins (Fin (12799 / 256)) (sql_int_real lit_builtins 2) =
            Fin (12799 / 512)"
    using fine_quotient by (simp add: lit_builtins_def)
  have r: "sql_round_real lit_builtins (Fin (12799 / 512)) = Fin 25"
    using fine_average by (simp add: lit_builtins_def)
  from ltv_completed_orders [OF fine_report m i d t n s _ q]
  have "lifetime_spend ?ann = SqlReal (Fin (12799 / 256)) \<and> orders_count ?ann = SqlInt 2 \<and>
        avg_order_value ?ann = result_double (sql_round_real lit_builtins (Fin (12799 / 512)))"
    by simp
  then have "lifetime_spend ?ann = SqlReal (Fin (12799 / 256)) \<and> orders_count ?ann = SqlInt 2 \<and>
        avg_order_value ?ann = SqlReal (Fin 25)"
    by (simp add: r result_double_def)
  then show ?thesis using q' by (simp add: fine_report fine_orders)
qed

subsection \<open>Loading a table row by row\<close>

lemma for_each_append:
  "for_each f s (xs @ ys) = (case for_each f s xs of Inl e \<Rightarrow> Inl e | Inr s' \<Rightarrow> for_each f s' ys)"
  by (induction xs arbitrary: s) (auto split: sum.splits)

lemma for_each_inv:
  assumes "for_each f s xs = Inr s'" "P s"
    and "\<And>s x s'. x \<in> set xs \<Longrightarrow> P s \<Longrightarrow> f s x = Inr s' \<Longrightarrow> P s'"
  shows "P s'"
  using assms
proof (induction xs arbitrary: s)
  case Nil
  then show ?case by simp
next
  case (Cons x xs)
  from Cons.prems(1) obtain s1 where s1: "f s x = Inr s1" "for_each f s1 xs = Inr s'"
    by (auto split: sum.splits)
  have "P s1" using Cons.prems(2,3) s1(1) by auto
  with s1(2) Cons.prems(3) show ?case by (intro Cons.IH) auto
qed

lemma for_each_map: "for_each f s (map g xs) = for_each (\<lambda>s x. f s (g x)) s xs"
  by (induction xs arbitrary: s) (auto split: sum.splits)

text \<open>Converting all rows and then inserting them ends well exactly when converting and
  inserting them one after the other does, and in the same store.\<close>

lemma load_rows_iff:
  "(\<exists>rows'. coerce_rows B (map row_dict rows) = Inr rows' \<and>
       insert_rows B st t rows' (col_map t) = Inr st') \<longleftrightarrow>
   for_each (put_row B t) st rows = Inr st'"
proof (induction rows arbitrary: st)
  case Nil
  show ?case by (auto simp: insert_rows_def)
next
  case (Cons x xs)
  show ?case
  proof (cases "coerce_row B (row_dict x)")
    case (Inl e)
    then show ?thesis by (simp add: put_row_def)
  next
    case (Inr r)
    show ?thesis
    proof (cases "exec_insert B t (col_map t) st (map (dict_get r) (col_map t))")
      case (Inl e)
      with Inr show ?thesis
        by (auto simp: put_row_def insert_rows_def split: sum.splits)
    next
      case st1: (Inr st1)
      have "(\<exists>rows'. coerce_rows B (map row_dict (x # xs)) = Inr rows' \<and>
               insert_rows B st t rows' (col_map t) = Inr st') \<longleftrightarrow>
            (\<exists>rows'. coerce_rows B (map row_dict xs) = Inr rows' \<and>
               insert_rows B st1 t rows' (col_map t) = Inr st')"
        using Inr st1 by (auto simp: insert_rows_def split: sum.splits)
      also have "\<dots> \<longleftrightarrow> for_each (put_row B t) st1 xs = Inr st'"
        by (rule Cons.IH)
      also have "\<dots> \<longleftrightarrow> for_each (put_row B t) st (x # xs) = Inr st'"
        using Inr st1 by (simp add: put_row_def)
      finally show ?thesis .
    qed
  qed
qed

lemma load_table_Inr_iff:
  "load_table B dir s t = Inr s' \<longleftrightarrow>
     (case dir t of
        None \<Rightarrow> s' = s\<lparr>log := log s @ [Skip_missing t]\<rparr>
      | Some rows \<Rightarrow>
          if rows = [] then s' = s\<lparr>log := log s @ [Skip_empty t]\<rparr>
          else for_each (put_row B t) (conn s) rows = Inr (conn s') \<and>
               log s' = log s @ [Inserted t (length rows)])"
proof (cases "dir t")
  case None
  then show ?thesis by (auto simp: load_table_def)
next
  case (Some rows)
  show ?thesis
  proof (cases "rows = []")
    case True
    with Some show ?thesis by (auto simp: load_table_def)
  next
    case False
    have len: "coerce_rows B rs = Inr rs' \<Longrightarrow> length rs' = length rs" for rs rs'
      by (induction rs arbitrary: rs') (auto split: sum.splits)
    have "load_table B dir s t = Inr s' \<longleftrightarrow>
          (\<exists>rows'. coerce_rows B (map row_dict rows) = Inr rows' \<and>
             insert_rows B (conn s) t rows' (col_map t) = Inr (conn s') \<and>
             log s' = log s @ [Inserted t (length rows)])"
      using Some False by (cases s') (auto simp: load_table_def split: sum.splits dest: len)
    also have "\<dots> \<longleftrightarrow> (\<exists>rows'. coerce_rows B (map row_dict rows) = Inr rows' \<and>
             insert_rows B (conn s) t rows' (col_map t) = Inr (conn s')) \<and>
             log s' = log s @ [Inserted t (length rows)]"
      by blast
    finally show ?thesis using Some False by (simp add: load_rows_iff)
  qed
qed

lemma put_row_Customers_iff:
  "put_row B Customers st x = Inr st' \<longleftrightarrow>
     (\<exists>vals ko. params_of B Customers x = Some vals \<and>
        rowid_of B (arg (col_map Customers) vals ''customer_id'') = Inr ko \<and>
        insert_customer B st (col_map Customers) vals = Inr st')"
  by (auto simp: put_row_def params_of_def exec_insert_def insert_customer_def
      split: sum.splits option.splits)

lemma put_row_Products_iff:
  "put_row B Products st x = Inr st' \<longleftrightarrow>
     (\<exists>vals ko. params_of B Products x = Some vals \<and>
        rowid_of B (arg (col_map Products) vals ''product_id'') = Inr ko \<and>
        st' = st\<lparr>products := tbl_put (new_key ko (products st))
                  (product_of B (col_map Products) vals) (products st)\<rparr>)"
  by (auto simp: put_row_def params_of_def exec_insert_def insert_product_def Let_def
      split: sum.splits option.splits)

lemma put_row_Orders_iff:
  "put_row B Orders st x = Inr st' \<longleftrightarrow>
     (\<exists>vals ko. params_of B Orders x = Some vals \<and>
        rowid_of B (arg (col_map Orders) vals ''order_id'') = Inr ko \<and>
        fk_ok (o_customer_id (order_of B (col_map Orders) vals)) (customers st) \<and>
        st' = st\<lparr>orders := tbl_put (new_key ko (orders st))
                  (order_of B (col_map Orders) vals) (orders st)\<rparr>)"
  by (auto simp: put_row_def params_of_def exec_insert_def insert_order_def Let_def
      split: sum.splits option.splits if_splits)

lemma put_row_Order_items_iff:
  "put_row B Order_items st x = Inr st' \<longleftrightarrow>
     (\<exists>vals ko. params_of B Order_items x = Some vals \<and>
        rowid_of B (arg (col_map Order_items) vals ''order_item_id'') = Inr ko \<and>
        fk_ok (i_order_id (item_of B (col_map Order_items) vals)) (orders st) \<and>
        fk_ok (i_product_id (item_of B (col_map Order_items) vals)) (products st) \<and>
        st' = st\<lparr>order_items := tbl_put (new_key ko (order_items st))
                  (item_of B (col_map Order_items) vals) (order_items st)\<rparr>)"
  by (auto simp: put_row_def params_of_def exec_insert_def insert_item_def Let_def
      split: sum.splits option.splits if_splits)

lemma put_row_Reviews_iff:
  "put_row B Reviews st x = Inr st' \<longleftrightarrow>
     (\<exists>vals ko. params_of B Reviews x = Some vals \<and>
        rowid_of B (arg (col_map Reviews) vals ''review_id'') = Inr ko \<and>
        fk_ok (v_product_id (review_of B (col_map Reviews) vals)) (products st) \<and>
        fk_ok (v_customer_id (review_of B (col_map Reviews) vals)) (customers st) \<and>
        st' = st\<lparr>reviews := tbl_put (new_key ko (reviews st))
                  (review_of B (col_map Reviews) vals) (reviews st)\<rparr>)"
  by (auto simp: put_row_def params_of_def exec_insert_def insert_review_def Let_def
      split: sum.splits option.splits if_splits)

lemma insert_customer_frame:
  "insert_customer B st cols vals = Inr st' \<Longrightarrow>
   products st' = products st \<and> orders st' = orders st \<and>
   order_items st' = order_items st \<and> reviews st' = reviews st"
  by (auto simp: insert_customer_def Let_def split: sum.splits if_splits)

text \<open>A row put into one table leaves the other four tables as they are.\<close>

lemma put_row_frame:
  assumes "put_row B t st x = Inr st'"
  shows "(t \<noteq> Customers \<longrightarrow> customers st' = customers st) \<and>
         (t \<noteq> Products \<longrightarrow> products st' = products st) \<and>
         (t \<noteq> Orders \<longrightarrow> orders st' = orders st) \<and>
         (t \<noteq> Order_items \<longrightarrow> order_items st' = order_items st) \<and>
         (t \<noteq> Reviews \<longrightarrow> reviews st' = reviews st)"
proof (cases t)
  case Customers
  with assms show ?thesis
    by (auto simp: put_row_Customers_iff dest: insert_customer_frame)
next
  case Products
  with assms show ?thesis by (auto simp: put_row_Products_iff)
next
  case Orders
  with assms show ?thesis by (auto simp: put_row_Orders_iff)
next
  case Order_items
  with assms show ?thesis by (auto simp: put_row_Order_items_iff)
next
  case Reviews
  with assms show ?thesis by (auto simp: put_row_Reviews_iff)
qed

lemma put_rows_frame:
  assumes "for_each (put_row B t) st xs = Inr st'"
  shows "(t \<noteq> Customers \<longrightarrow> customers st' = customers st) \<and>
         (t \<noteq> Products \<longrightarrow> products st' = products st) \<and>
         (t \<noteq> Orders \<longrightarrow> orders st' = orders st) \<and>
         (t \<noteq> Order_items \<longrightarrow> order_items st' = order_items st) \<and>
         (t \<noteq> Reviews \<longrightarrow> reviews st' = reviews st)"
  by (rule for_each_inv [OF assms]) (auto dest: put_row_frame)

lemma load_table_frame:
  assumes "load_table B dir s t = Inr s'"
  shows "(t \<noteq> Customers \<longrightarrow> customers (conn s') = customers (conn s)) \<and>
         (t \<noteq> Products \<longrightarrow> products (conn s') = products (conn s)) \<and>
         (t \<noteq> Orders \<longrightarrow> orders (conn s') = orders (conn s)) \<and>
         (t \<noteq> Order_items \<longrightarrow> order_items (conn s') = order_items (conn s)) \<and>
         (t \<noteq> Reviews \<longrightarrow> reviews (conn s') = reviews (conn s))"
proof (cases "dir t")
  case None
  with assms show ?thesis by (simp add: load_table_Inr_iff)
next
  case (Some rows)
  show ?thesis
  proof (cases "rows = []")
    case True
    with Some assms show ?thesis by (simp add: load_table_Inr_iff)
  next
    case False
    with Some assms have "for_each (put_row B t) (conn s) rows = Inr (conn s')"
      by (simp add: load_table_Inr_iff)
    then show ?thesis by (rule put_rows_frame)
  qed
qed

lemma load_all_tables_ok:
  assumes "fst (load_all B dir s0 tables) = None"
  shows "\<exists>s1 s2 s3 s4 s5.
           load_table B dir s0 Customers = Inr s1 \<and> load_table B dir s1 Products = Inr s2 \<and>
           load_table B dir s2 Orders = Inr s3 \<and> load_table B dir s3 Order_items = Inr s4 \<and>
           load_table B dir s4 Reviews = Inr s5 \<and> snd (load_all B dir s0 tables) = s5"
  using assms by (auto simp: tables_def split: sum.splits)

lemma set_tbl_put: "set (tbl_put k r t) = insert (k, r) {p \<in> set t. fst p \<noteq> k}"
  by (auto simp: tbl_put_def tbl_delete_def set_insort_key)

lemma foldl_max_ge: "(a::int) \<le> foldl max a xs \<and> (\<forall>x\<in>set xs. x \<le> foldl max a xs)"
proof (induction xs arbitrary: a)
  case Nil
  show ?case by simp
next
  case (Cons x xs)
  from Cons.IH [of "max a x"] show ?case by auto
qed

lemma next_rowid_greater: "(k, r) \<in> set t \<Longrightarrow> k < next_rowid t"
proof (cases t)
  case Nil
  then show "(k, r) \<in> set t \<Longrightarrow> k < next_rowid t" by simp
next
  case (Cons p ps)
  assume "(k, r) \<in> set t"
  with Cons have "k = fst p \<or> k \<in> set (map fst ps)" by force
  with foldl_max_ge [of "fst p" "map fst ps"] have "k \<le> foldl max (fst p) (map fst ps)"
    by auto
  with Cons show "k < next_rowid t" by (simp add: next_rowid_def)
qed

lemma csv_key_Orders:
  assumes "params_of B Orders y = Some vals"
  shows "csv_key B Orders y =
          (case rowid_of B (arg (col_map Orders) vals ''order_id'') of Inr (Some k) \<Rightarrow> Some k | _ \<Rightarrow> None)"
  using assms by (simp add: csv_key_def)

text \<open>The last row of \<^verbatim>\<open>orders.csv\<close> that carries a key is the row the table holds under
  that key when the file has been loaded.\<close>

lemma orders_last_row:
  assumes run: "for_each (put_row B Orders) st (xs @ x # ys) = Inr st'"
    and vals: "params_of B Orders x = Some vals"
    and key: "rowid_of B (arg (col_map Orders) vals ''order_id'') = Inr (Some k)"
    and later: "\<forall>y\<in>set ys. csv_key B Orders y \<noteq> Some k"
  shows "(k, order_of B (col_map Orders) vals) \<in> set (orders st')"
proof -
  let ?r = "order_of B (col_map Orders) vals"
  from run obtain st1 st2 where
    st2: "put_row B Orders st1 x = Inr st2" and rest: "for_each (put_row B Orders) st2 ys = Inr st'"
    by (auto simp: for_each_append split: sum.splits)
  from st2 vals key have "orders st2 = tbl_put k ?r (orders st1)"
    by (auto simp: put_row_Orders_iff new_key_def)
  then have m: "(k, ?r) \<in> set (orders st2)" by (simp add: set_tbl_put)
  show ?thesis
  proof (rule for_each_inv [OF rest, where P = "\<lambda>s. (k, ?r) \<in> set (orders s)"])
    show "(k, ?r) \<in> set (orders st2)" by (rule m)
  next
    fix s y s'
    assume y: "y \<in> set ys" and in_s: "(k, ?r) \<in> set (orders s)"
      and step: "put_row B Orders s y = Inr s'"
    from step obtain v ko where
      v: "params_of B Orders y = Some v"
         "rowid_of B (arg (col_map Orders) v ''order_id'') = Inr ko"
         "orders s' = tbl_put (new_key ko (orders s)) (order_of B (col_map Orders) v) (orders s)"
      by (auto simp: put_row_Orders_iff)
    have "new_key ko (orders s) \<noteq> k"
    proof (cases ko)
      case None
      with next_rowid_greater [OF in_s] show ?thesis by (simp add: new_key_def)
    next
      case (Some k')
      with later y v(1,2) show ?thesis by (auto simp: csv_key_Orders new_key_def)
    qed
    with in_s v(3) show "(k, ?r) \<in> set (orders s')" by (simp add: set_tbl_put)
  qed
qed

text \<open>Every row of \<^verbatim>\<open>order_items\<close> after the load was there before or comes from a row of
  the file.\<close>

lemma items_after_load:
  assumes "for_each (put_row B Order_items) st its = Inr st'"
  shows "\<forall>p\<in>set (order_items st'). p \<in> set (order_items st) \<or>
           (\<exists>y\<in>set its. \<exists>v. params_of B Order_items y = Some v \<and>
              snd p = item_of B (col_map Order_items) v)"
proof (rule for_each_inv [OF assms])
  show "\<forall>p\<in>set (order_items st). p \<in> set (order_items st) \<or>
           (\<exists>y\<in>set its. \<exists>v. params_of B Order_items y = Some v \<and>
              snd p = item_of B (col_map Order_items) v)"
    by simp
next
  fix s y s'
  assume y: "y \<in> set its"
    and P: "\<forall>p\<in>set (order_items s). p \<in> set (order_items st) \<or>
           (\<exists>y\<in>set its. \<exists>v. params_of B Order_items y = Some v \<and>
              snd p = item_of B (col_map Order_items) v)"
    and step: "put_row B Order_items s y = Inr s'"
  from step obtain v ko where
    v: "params_of B Order_items y = Some v"
       "order_items s' = tbl_put (new_key ko (order_items s))
           (item_of B (col_map Order_items) v) (order_items s)"
    by (auto simp: put_row_Order_items_iff)
  show "\<forall>p\<in>set (order_items s'). p \<in> set (order_items st) \<or>
           (\<exists>y\<in>set its. \<exists>v. params_of B Order_items y = Some v \<and>
              snd p = item_of B (col_map Order_items) v)"
  proof
    fix p
    assume "p \<in> set (order_items s')"
    then consider "p = (new_key ko (order_items s), item_of B (col_map Order_items) v)"
      | "p \<in> set (order_items s)"
      by (auto simp: v(2) set_tbl_put)
    then show "p \<in> set (order_items st) \<or>
           (\<exists>y\<in>set its. \<exists>v. params_of B Order_items y = Some v \<and>
              snd p = item_of B (col_map Order_items) v)"
    proof cases
      case 1
      then have "snd p = item_of B (col_map Order_items) v" by simp
      with y v(1) show ?thesis by blast
    next
      case 2
      with P show ?thesis by blast
    qed
  qed
qed

lemma items_of_Nil_iff:
  "items_of st k = [] \<longleftrightarrow> (\<forall>p\<in>set (order_items st). \<not> refs (i_order_id (snd p)) k)"
  by (auto simp: items_of_def filter_empty_conv)

lemma load_table_conn_skip:
  assumes "load_table B dir s t = Inr s'" "dir t = None \<or> dir t = Some []"
  shows "conn s' = conn s"
  using assms by (auto simp: load_table_Inr_iff)

lemma load_table_put_rows:
  assumes "load_table B dir s t = Inr s'" "dir t = Some rows" "rows \<noteq> []"
  shows "for_each (put_row B t) (conn s) rows = Inr (conn s')"
  using assms by (simp add: load_table_Inr_iff)

subsection \<open>Orders without items\<close>

text \<open>
  Claim C2, as amended. Take a run that no load aborts, a row of \<^verbatim>\<open>orders.csv\<close> that
  carries the key \<open>k\<close> and is the last row of the file to do so, and suppose that no item of
  order \<open>k\<close> is in the store before the run nor in \<^verbatim>\<open>order_items.csv\<close>. Then the store
  holds under \<open>k\<close> the row as it was loaded from the file, the total and every other field.
  More generally, the update leaves every order that has no item in the store as the loads
  left it.
\<close>

theorem order_without_items_kept:
  assumes ok: "failure (ingest B dir dbf rep w) = None"
    and csv: "dir Orders = Some (xs @ x # ys)"
    and vals: "params_of B Orders x = Some vals"
    and key: "rowid_of B (arg (col_map Orders) vals ''order_id'') = Inr (Some k)"
    and later: "\<forall>y\<in>set ys. csv_key B Orders y \<noteq> Some k"
    and before: "items_of (conn (open_db dbf rep)) k = []"
    and none: "\<forall>its. dir Order_items = Some its \<longrightarrow>
                 (\<forall>y\<in>set its. \<forall>v. params_of B Order_items y = Some v \<longrightarrow>
                    \<not> refs (i_order_id (item_of B (col_map Order_items) v)) k)"
  shows "(k, order_of B (col_map Orders) vals) \<in> set (orders (db (ingest B dir dbf rep w))) \<and>
         (\<forall>k' r. (k', r) \<in> set (orders (conn (snd (load_all B dir (open_db dbf rep) tables)))) \<longrightarrow>
                 items_of (db (ingest B dir dbf rep w)) k' = [] \<longrightarrow>
                 (k', r) \<in> set (orders (db (ingest B dir dbf rep w))))"
proof -
  let ?s0 = "open_db dbf rep"
  let ?r = "order_of B (col_map Orders) vals"
  from ok have "fst (load_all B dir ?s0 tables) = None" by (simp add: failure_ingest)
  from load_all_tables_ok [OF this] obtain s1 s2 s3 s4 s5 where
    l1: "load_table B dir ?s0 Customers = Inr s1" and
    l2: "load_table B dir s1 Products = Inr s2" and
    l3: "load_table B dir s2 Orders = Inr s3" and
    l4: "load_table B dir s3 Order_items = Inr s4" and
    l5: "load_table B dir s4 Reviews = Inr s5" and
    fin: "snd (load_all B dir ?s0 tables) = s5"
    by blast
  have d: "db (ingest B dir dbf rep w) = update_totals B (conn s5)"
    using db_ingest_ok [OF ok] fin by simp
  \<comment> \<open>the orders load\<close>
  have "for_each (put_row B Orders) (conn s2) (xs @ x # ys) = Inr (conn s3)"
    by (rule load_table_put_rows [OF l3 csv]) simp
  from orders_last_row [OF this vals key later]
  have m3: "(k, ?r) \<in> set (orders (conn s3))" .
  have o5: "orders (conn s5) = orders (conn s3)"
    using load_table_frame [OF l4] load_table_frame [OF l5] by simp
  \<comment> \<open>the items\<close>
  have i3: "order_items (conn s3) = order_items (conn ?s0)"
    using load_table_frame [OF l1] load_table_frame [OF l2] load_table_frame [OF l3] by simp
  have n3: "\<forall>p\<in>set (order_items (conn s3)). \<not> refs (i_order_id (snd p)) k"
    using before by (simp add: i3 items_of_Nil_iff)
  have n4: "\<forall>p\<in>set (order_items (conn s4)). \<not> refs (i_order_id (snd p)) k"
  proof (cases "dir Order_items = None \<or> dir Order_items = Some []")
    case True
    from load_table_conn_skip [OF l4 True] n3 show ?thesis by simp
  next
    case False
    then obtain its where its: "dir Order_items = Some its" "its \<noteq> []" by auto
    from load_table_put_rows [OF l4 its]
    have run: "for_each (put_row B Order_items) (conn s3) its = Inr (conn s4)" .
    show ?thesis
    proof
      fix p
      assume "p \<in> set (order_items (conn s4))"
      with items_after_load [OF run] consider "p \<in> set (order_items (conn s3))"
        | y v where "y \<in> set its" "params_of B Order_items y = Some v"
            "snd p = item_of B (col_map Order_items) v"
        by blast
      then show "\<not> refs (i_order_id (snd p)) k"
      proof cases
        case 1
        with n3 show ?thesis by blast
      next
        case 2
        with none its(1) show ?thesis by simp
      qed
    qed
  qed
  have i5: "order_items (conn s5) = order_items (conn s4)"
    using load_table_frame [OF l5] by simp
  have "items_of (conn s5) k = []"
    using n4 by (simp add: items_of_Nil_iff i5)
  with m3 o5 have 1: "(k, ?r) \<in> set (orders (db (ingest B dir dbf rep w)))"
    unfolding d by (intro kept_order) simp_all
  have 2: "(k', r) \<in> set (orders (db (ingest B dir dbf rep w)))"
    if "(k', r) \<in> set (orders (conn (snd (load_all B dir ?s0 tables))))"
      and "items_of (db (ingest B dir dbf rep w)) k' = []" for k' r
    using that unfolding d fin by (intro kept_order) simp_all
  from 1 2 show ?thesis by blast
qed

text \<open>Order 2 of the example data has no item.\<close>

lemma shop_order2_params:
  "params_of lit_builtins Orders (order_csv ''2'' ''1'' ''2024-03-01'' ''20.0'' ''completed'') =
     Some [SqlInt 2, SqlInt 1, SqlText ''2024-03-01'', SqlReal (Fin 20), SqlText ''completed'']"
  by code_simp

lemma shop_order3_key:
  "csv_key lit_builtins Orders (order_csv ''3'' ''1'' ''2024-04-01'' ''100.0'' ''cancelled'') = Some 3"
  by code_simp

lemma shop_item1_params:
  "params_of lit_builtins Order_items (item_csv ''1'' ''1'' ''1'' ''3.0'' ''10.0'' ''30.0'') =
     Some [SqlInt 1, SqlInt 1, SqlInt 1, SqlInt 3, SqlReal (Fin 10), SqlReal (Fin 30)]"
  by code_simp

lemma shop_order2_row:
  "order_of lit_builtins (col_map Orders)
     [SqlInt 2, SqlInt 1, SqlText ''2024-03-01'', SqlReal (Fin 20), SqlText ''completed''] =
   \<lparr>o_customer_id = SqlInt 1, o_order_date = SqlText ''2024-03-01'',
     o_total = SqlReal (Fin 20), o_status = SqlText ''completed''\<rparr>"
  by code_simp

lemma shop_order2_key:
  "rowid_of lit_builtins (arg (col_map Orders)
     [SqlInt 2, SqlInt 1, SqlText ''2024-03-01'', SqlReal (Fin 20), SqlText ''completed''] ''order_id'') =
   Inr (Some 2)"
  by code_simp

lemma shop_item1_order:
  "i_order_id (item_of lit_builtins (col_map Order_items)
     [SqlInt 1, SqlInt 1, SqlInt 1, SqlInt 3, SqlReal (Fin 10), SqlReal (Fin 30)]) = SqlInt 1"
  by code_simp

theorem order_without_items_kept_witness:
  "params_of lit_builtins Orders (order_csv ''2'' ''1'' ''2024-03-01'' ''20.0'' ''completed'') =
     Some [SqlInt 2, SqlInt 1, SqlText ''2024-03-01'', SqlReal (Fin 20), SqlText ''completed''] \<and>
   items_of (db (ingest lit_builtins shop_dir None False True)) 2 = [] \<and>
   (2, \<lparr>o_customer_id = SqlInt 1, o_order_date = SqlText ''2024-03-01'',
         o_total = SqlReal (Fin 20), o_status = SqlText ''completed''\<rparr>)
     \<in> set (orders (db (ingest lit_builtins shop_dir None False True)))"
proof -
  let ?o1 = "order_csv ''1'' ''1'' ''2024-02-01'' ''99.0'' ''completed''"
  let ?o2 = "order_csv ''2'' ''1'' ''2024-03-01'' ''20.0'' ''completed''"
  let ?o3 = "order_csv ''3'' ''1'' ''2024-04-01'' ''100.0'' ''cancelled''"
  let ?vals = "[SqlInt 2, SqlInt 1, SqlText ''2024-03-01'', SqlReal (Fin 20), SqlText ''completed'']"
  have csv: "shop_dir Orders = Some ([?o1] @ ?o2 # [?o3])" by (simp add: shop_dir_def)
  have later: "\<forall>y\<in>set [?o3]. csv_key lit_builtins Orders y \<noteq> Some 2"
    by (simp add: shop_order3_key)
  have before: "items_of (conn (open_db None False)) 2 = []"
    by (simp add: open_db_def empty_store_def items_of_def)
  have none: "\<forall>its. shop_dir Order_items = Some its \<longrightarrow>
                 (\<forall>y\<in>set its. \<forall>v. params_of lit_builtins Order_items y = Some v \<longrightarrow>
                    \<not> refs (i_order_id (item_of lit_builtins (col_map Order_items) v)) 2)"
    by (auto simp: shop_dir_def shop_item1_params shop_item1_order simp del: col_map.simps)
  from order_without_items_kept [OF shop_ok csv shop_order2_params shop_order2_key later before none]
  have "(2, order_of lit_builtins (col_map Orders) ?vals)
          \<in> set (orders (db (ingest lit_builtins shop_dir None False True)))"
    by blast
  moreover have "items_of (db (ingest lit_builtins shop_dir None False True)) 2 = []"
    by (simp add: shop_db items_of_def)
  ultimately show ?thesis
    using shop_order2_params by (simp only: shop_order2_row)
qed

text \<open>
  Claim C2 as stated fails on a database that an earlier load left. The store holds an item
  of order 1, whose line total is 30; the data directory has \<^verbatim>\<open>orders.csv\<close>, with the total
  99 for order 1, and no \<^verbatim>\<open>order_items.csv\<close>. The run loads the order with the total 99, and
  the update, which reads the items of the store, sets the total to 30.
\<close>

theorem stale_item_counterexample:
  "stale_dir Order_items = None \<and>
   map (\<lambda>x. (x ''order_id'', x ''total'')) (the (stale_dir Orders)) =
     [(Some (Some ''1''), Some (Some ''99.0''))] \<and>
   failure (ingest lit_builtins stale_dir (Some stale_store) False False) = None \<and>
   map (\<lambda>p. (fst p, o_total (snd p)))
     (orders (conn (snd (load_all lit_builtins stale_dir (open_db (Some stale_store) False) tables)))) =
     [(1, SqlReal (Fin 99))] \<and>
   map (\<lambda>p. (fst p, o_total (snd p)))
     (orders (db (ingest lit_builtins stale_dir (Some stale_store) False False))) =
     [(1, SqlReal (Fin 30))]"
  by code_simp

subsection \<open>Tables in key order\<close>

lemma wf_tbl_filter: "wf_tbl t \<Longrightarrow> wf_tbl (filter P t)"
  by (simp add: wf_tbl_def sorted_filter distinct_map_filter)

lemma distinct_keys_insort:
  "k \<notin> fst ` set t \<Longrightarrow> distinct (map fst t) \<Longrightarrow> distinct (map fst (insort_key fst (k, r) t))"
  by (induction t) (auto simp: set_insort_key)

lemma wf_tbl_put: "wf_tbl t \<Longrightarrow> wf_tbl (tbl_put k r t)"
proof -
  assume wf: "wf_tbl t"
  have "k \<notin> fst ` set (tbl_delete k t)" by (auto simp: tbl_delete_def)
  moreover have "wf_tbl (tbl_delete k t)"
    using wf by (simp add: tbl_delete_def wf_tbl_filter)
  ultimately show ?thesis
    by (simp add: wf_tbl_def tbl_put_def sorted_insort_key distinct_keys_insort)
qed

lemma map_of_tbl_delete: "map_of (tbl_delete k t) = (map_of t)(k := None)"
  by (induction t) (auto simp: tbl_delete_def)

lemma map_of_insort_fresh:
  "k \<notin> fst ` set t \<Longrightarrow> map_of (insort_key fst (k, r) t) = (map_of t)(k \<mapsto> r)"
  by (induction t) (auto simp: fun_upd_twist)

lemma map_of_tbl_put: "map_of (tbl_put k r t) = (map_of t)(k \<mapsto> r)"
proof -
  have "k \<notin> fst ` set (tbl_delete k t)" by (auto simp: tbl_delete_def)
  then show ?thesis by (simp add: tbl_put_def map_of_insort_fresh map_of_tbl_delete)
qed

lemma keys_tbl_put: "fst ` set (tbl_put k r t) = insert k (fst ` set t)"
  by (auto simp: set_tbl_put)

text \<open>Two well-formed tables with the same rows under the same keys are the same list.\<close>

lemma wf_tbl_eqI:
  assumes "wf_tbl t" "wf_tbl t'" "map_of t = map_of t'"
  shows "t = t'"
proof -
  have s: "set t = set t'"
    using assms by (simp add: wf_tbl_def map_of_inject_set [symmetric])
  have "inj_on fst (set t)"
    using assms(1) by (simp add: wf_tbl_def distinct_map)
  with s have "inj_on fst (set t \<union> set t')" by simp
  then show ?thesis
    using assms(1,2) s by (intro map_sorted_distinct_set_unique [of fst]) (simp_all add: wf_tbl_def)
qed

lemma wf_tbl_puts: "wf_tbl t \<Longrightarrow> wf_tbl (puts kvs t)"
  by (induction kvs arbitrary: t) (simp_all add: puts_def wf_tbl_put)

lemma map_of_puts: "map_of (puts kvs t) = map_of t ++ map_of (rev kvs)"
proof (induction kvs arbitrary: t)
  case Nil
  show ?case by (simp add: puts_def)
next
  case (Cons p kvs)
  have "map_of (puts (p # kvs) t) = map_of (puts kvs (tbl_put (fst p) (snd p) t))"
    by (simp add: puts_def)
  also have "\<dots> = (map_of t)(fst p \<mapsto> snd p) ++ map_of (rev kvs)"
    by (simp only: Cons.IH map_of_tbl_put)
  also have "\<dots> = map_of t ++ map_of (rev (p # kvs))"
  proof -
    have "map_of (rev (p # kvs)) = map_of [p] ++ map_of (rev kvs)"
      by (simp only: rev.simps map_of_append)
    moreover have "(map_of t)(fst p \<mapsto> snd p) = map_of t ++ map_of [p]"
      by (cases p) simp
    ultimately show ?thesis by (simp only: map_add_assoc)
  qed
  finally show ?case .
qed

lemma keys_puts: "fst ` set (puts kvs t) = fst ` set t \<union> fst ` set kvs"
  by (induction kvs arbitrary: t) (auto simp: puts_def keys_tbl_put)

lemma puts_append: "puts (xs @ ys) t = puts ys (puts xs t)"
  by (simp add: puts_def)

lemma map_add_twice: "m ++ n ++ n = m ++ n"
  by (auto simp: fun_eq_iff map_add_def split: option.splits)

lemma puts_idem: "wf_tbl t \<Longrightarrow> puts kvs (puts kvs t) = puts kvs t"
  by (rule wf_tbl_eqI) (simp_all add: wf_tbl_puts map_of_puts map_add_twice)

subsection \<open>Loading keyed files\<close>

lemma for_each_iff:
  assumes step: "\<And>s x s'. x \<in> set xs \<Longrightarrow> (f s x = Inr s') = (ok s x \<and> s' = upd x s)"
    and stable: "\<And>s x y. ok (upd x s) y = ok s y"
  shows "(for_each f s xs = Inr s') = ((\<forall>x\<in>set xs. ok s x) \<and> s' = fold upd xs s)"
  using step
proof (induction xs arbitrary: s)
  case Nil
  show ?case by auto
next
  case (Cons x xs)
  have IH: "(for_each f s1 xs = Inr s') = ((\<forall>x\<in>set xs. ok s1 x) \<and> s' = fold upd xs s1)" for s1
    by (rule Cons.IH) (simp add: Cons.prems)
  have st: "(f s x = Inr s1) = (ok s x \<and> s1 = upd x s)" for s1
    by (rule Cons.prems) simp
  show ?case
  proof (cases "f s x")
    case (Inl e)
    with st [of "upd x s"] have "\<not> ok s x" by auto
    with Inl show ?thesis by simp
  next
    case (Inr s1)
    with st [of s1] have s1: "ok s x" "s1 = upd x s" by auto
    from Inr have "(for_each f s (x # xs) = Inr s') = (for_each f s1 xs = Inr s')" by simp
    also have "\<dots> = ((\<forall>x\<in>set xs. ok s1 x) \<and> s' = fold upd xs s1)" by (rule IH)
    also have "\<dots> = ((\<forall>y\<in>set (x # xs). ok s y) \<and> s' = fold upd (x # xs) s)"
      using s1 by (simp add: stable)
    finally show ?thesis .
  qed
qed

lemma csv_key_SomeD:
  assumes "csv_key B t x \<noteq> None"
  shows "\<exists>vals k. params_of B t x = Some vals \<and>
           rowid_of B (arg (col_map t) vals (key_col t)) = Inr (Some k) \<and> csv_key B t x = Some k"
  using assms by (auto simp: csv_key_def split: option.splits sum.splits)

lemma put_row_Products_keyed:
  assumes "csv_key B Products x \<noteq> None"
  shows "(put_row B Products st x = Inr st') =
         (True \<and> st' = st\<lparr>products := tbl_put (fst (product_kv B x)) (snd (product_kv B x)) (products st)\<rparr>)"
proof -
  from csv_key_SomeD [OF assms] obtain vals k where
    v: "params_of B Products x = Some vals"
       "rowid_of B (arg (col_map Products) vals (key_col Products)) = Inr (Some k)"
       "csv_key B Products x = Some k"
    by blast
  show ?thesis
    using v(2) by (auto simp: put_row_Products_iff product_kv_def new_key_def v(1,3))
qed

lemma put_row_Orders_keyed:
  assumes "csv_key B Orders x \<noteq> None"
  shows "(put_row B Orders st x = Inr st') =
         (fk_ok (o_customer_id (snd (order_kv B x))) (customers st) \<and>
          st' = st\<lparr>orders := tbl_put (fst (order_kv B x)) (snd (order_kv B x)) (orders st)\<rparr>)"
proof -
  from csv_key_SomeD [OF assms] obtain vals k where
    v: "params_of B Orders x = Some vals"
       "rowid_of B (arg (col_map Orders) vals (key_col Orders)) = Inr (Some k)"
       "csv_key B Orders x = Some k"
    by blast
  show ?thesis
    using v(2) by (auto simp: put_row_Orders_iff order_kv_def new_key_def v(1,3))
qed

lemma put_row_Order_items_keyed:
  assumes "csv_key B Order_items x \<noteq> None"
  shows "(put_row B Order_items st x = Inr st') =
         ((fk_ok (i_order_id (snd (item_kv B x))) (orders st) \<and>
           fk_ok (i_product_id (snd (item_kv B x))) (products st)) \<and>
          st' = st\<lparr>order_items := tbl_put (fst (item_kv B x)) (snd (item_kv B x)) (order_items st)\<rparr>)"
proof -
  from csv_key_SomeD [OF assms] obtain vals k where
    v: "params_of B Order_items x = Some vals"
       "rowid_of B (arg (col_map Order_items) vals (key_col Order_items)) = Inr (Some k)"
       "csv_key B Order_items x = Some k"
    by blast
  show ?thesis
    using v(2) by (auto simp: put_row_Order_items_iff item_kv_def new_key_def v(1,3))
qed

lemma put_row_Reviews_keyed:
  assumes "csv_key B Reviews x \<noteq> None"
  shows "(put_row B Reviews st x = Inr st') =
         ((fk_ok (v_product_id (snd (review_kv B x))) (products st) \<and>
           fk_ok (v_customer_id (snd (review_kv B x))) (customers st)) \<and>
          st' = st\<lparr>reviews := tbl_put (fst (review_kv B x)) (snd (review_kv B x)) (reviews st)\<rparr>)"
proof -
  from csv_key_SomeD [OF assms] obtain vals k where
    v: "params_of B Reviews x = Some vals"
       "rowid_of B (arg (col_map Reviews) vals (key_col Reviews)) = Inr (Some k)"
       "csv_key B Reviews x = Some k"
    by blast
  show ?thesis
    using v(2) by (auto simp: put_row_Reviews_iff review_kv_def new_key_def v(1,3))
qed

lemma fold_products:
  "fold (\<lambda>x st. st\<lparr>products := tbl_put (fst (kv x)) (snd (kv x)) (products st)\<rparr>) xs st =
   st\<lparr>products := puts (map kv xs) (products st)\<rparr>"
  by (induction xs arbitrary: st) (simp_all add: puts_def)

lemma fold_orders:
  "fold (\<lambda>x st. st\<lparr>orders := tbl_put (fst (kv x)) (snd (kv x)) (orders st)\<rparr>) xs st =
   st\<lparr>orders := puts (map kv xs) (orders st)\<rparr>"
  by (induction xs arbitrary: st) (simp_all add: puts_def)

lemma fold_items:
  "fold (\<lambda>x st. st\<lparr>order_items := tbl_put (fst (kv x)) (snd (kv x)) (order_items st)\<rparr>) xs st =
   st\<lparr>order_items := puts (map kv xs) (order_items st)\<rparr>"
  by (induction xs arbitrary: st) (simp_all add: puts_def)

lemma fold_reviews:
  "fold (\<lambda>x st. st\<lparr>reviews := tbl_put (fst (kv x)) (snd (kv x)) (reviews st)\<rparr>) xs st =
   st\<lparr>reviews := puts (map kv xs) (reviews st)\<rparr>"
  by (induction xs arbitrary: st) (simp_all add: puts_def)

lemma load_products:
  assumes "\<forall>x\<in>set rows. csv_key B Products x \<noteq> None"
  shows "(for_each (put_row B Products) st rows = Inr st') =
         (st' = st\<lparr>products := puts (map (product_kv B) rows) (products st)\<rparr>)"
proof -
  have "(for_each (put_row B Products) st rows = Inr st') =
        ((\<forall>x\<in>set rows. True) \<and>
         st' = fold (\<lambda>x st. st\<lparr>products := tbl_put (fst (product_kv B x)) (snd (product_kv B x)) (products st)\<rparr>) rows st)"
    by (rule for_each_iff) (simp_all add: assms put_row_Products_keyed)
  then show ?thesis by (simp add: fold_products)
qed

lemma load_orders:
  assumes "\<forall>x\<in>set rows. csv_key B Orders x \<noteq> None"
  shows "(for_each (put_row B Orders) st rows = Inr st') =
         ((\<forall>x\<in>set rows. fk_ok (o_customer_id (snd (order_kv B x))) (customers st)) \<and>
          st' = st\<lparr>orders := puts (map (order_kv B) rows) (orders st)\<rparr>)"
proof -
  have "(for_each (put_row B Orders) st rows = Inr st') =
        ((\<forall>x\<in>set rows. fk_ok (o_customer_id (snd (order_kv B x))) (customers st)) \<and>
         st' = fold (\<lambda>x st. st\<lparr>orders := tbl_put (fst (order_kv B x)) (snd (order_kv B x)) (orders st)\<rparr>) rows st)"
    by (rule for_each_iff) (simp_all add: assms put_row_Orders_keyed)
  then show ?thesis by (simp add: fold_orders)
qed

lemma load_items:
  assumes "\<forall>x\<in>set rows. csv_key B Order_items x \<noteq> None"
  shows "(for_each (put_row B Order_items) st rows = Inr st') =
         ((\<forall>x\<in>set rows. fk_ok (i_order_id (snd (item_kv B x))) (orders st) \<and>
                          fk_ok (i_product_id (snd (item_kv B x))) (products st)) \<and>
          st' = st\<lparr>order_items := puts (map (item_kv B) rows) (order_items st)\<rparr>)"
proof -
  have "(for_each (put_row B Order_items) st rows = Inr st') =
        ((\<forall>x\<in>set rows. fk_ok (i_order_id (snd (item_kv B x))) (orders st) \<and>
                          fk_ok (i_product_id (snd (item_kv B x))) (products st)) \<and>
         st' = fold (\<lambda>x st. st\<lparr>order_items := tbl_put (fst (item_kv B x)) (snd (item_kv B x)) (order_items st)\<rparr>) rows st)"
    by (rule for_each_iff) (simp_all add: assms put_row_Order_items_keyed)
  then show ?thesis by (simp add: fold_items)
qed

lemma load_reviews:
  assumes "\<forall>x\<in>set rows. csv_key B Reviews x \<noteq> None"
  shows "(for_each (put_row B Reviews) st rows = Inr st') =
         ((\<forall>x\<in>set rows. fk_ok (v_product_id (snd (review_kv B x))) (products st) \<and>
                          fk_ok (v_customer_id (snd (review_kv B x))) (customers st)) \<and>
          st' = st\<lparr>reviews := puts (map (review_kv B) rows) (reviews st)\<rparr>)"
proof -
  have "(for_each (put_row B Reviews) st rows = Inr st') =
        ((\<forall>x\<in>set rows. fk_ok (v_product_id (snd (review_kv B x))) (products st) \<and>
                          fk_ok (v_customer_id (snd (review_kv B x))) (customers st)) \<and>
         st' = fold (\<lambda>x st. st\<lparr>reviews := tbl_put (fst (review_kv B x)) (snd (review_kv B x)) (reviews st)\<rparr>) rows st)"
    by (rule for_each_iff) (simp_all add: assms put_row_Reviews_keyed)
  then show ?thesis by (simp add: fold_reviews)
qed

lemma fk_ok_iff: "fk_ok v p = (v = SqlNull \<or> (\<exists>k\<in>fst ` set p. refs v k))"
  by (auto simp: fk_ok_def list_ex_iff)

lemma fk_ok_keys: "fst ` set p = fst ` set p' \<Longrightarrow> fk_ok v p = fk_ok v p'"
  by (simp add: fk_ok_iff)

subsection \<open>The customers and their emails\<close>

lemma csv_email_kv:
  "csv_key B Customers x \<noteq> None \<Longrightarrow> c_email (snd (customer_kv B x)) = csv_email B x"
proof -
  assume "csv_key B Customers x \<noteq> None"
  from csv_key_SomeD [OF this] obtain vals where "params_of B Customers x = Some vals"
    by blast
  then show ?thesis by (simp add: csv_email_def customer_kv_def)
qed

lemma put_row_Customers_keyed:
  assumes "csv_key B Customers x \<noteq> None"
  shows "(put_row B Customers st x = Inr st') =
         (\<not> list_ex (\<lambda>p. customer_referenced st (fst p))
               (filter (email_clash (fst (customer_kv B x)) (snd (customer_kv B x))) (customers st)) \<and>
          st' = st\<lparr>customers := tbl_put (fst (customer_kv B x)) (snd (customer_kv B x))
                  (filter (\<lambda>p. \<not> email_clash (fst (customer_kv B x)) (snd (customer_kv B x)) p)
                     (customers st))\<rparr>)"
proof -
  from csv_key_SomeD [OF assms] obtain vals k where
    v: "params_of B Customers x = Some vals"
       "rowid_of B (arg (col_map Customers) vals (key_col Customers)) = Inr (Some k)"
       "csv_key B Customers x = Some k"
    by blast
  show ?thesis
    using v(2)
    by (auto simp: put_row_Customers_iff insert_customer_def Let_def customer_kv_def new_key_def v(1,3))
qed

lemma apartD:
  assumes "apart B rows" "x \<in> set rows" "y \<in> set rows"
    and "csv_email B x \<noteq> SqlNull" "csv_email B x = csv_email B y"
  shows "csv_key B Customers x = csv_key B Customers y"
  using assms unfolding apart_def by blast

lemma key_kv: "csv_key B Customers x \<noteq> None \<Longrightarrow> csv_key B Customers x = Some (fst (customer_kv B x))"
  by (auto simp: customer_kv_def)

text \<open>Where every email of the file is found under its own key only, a row of the file
  replaces no row but that of its key.\<close>

lemma customers_owned_step:
  assumes x: "x \<in> set rows" and keyed: "\<forall>x\<in>set rows. csv_key B Customers x \<noteq> None"
    and ap: "apart B rows" and own: "emails_owned B rows (customers st)"
  shows "put_row B Customers st x =
           Inr (st\<lparr>customers := tbl_put (fst (customer_kv B x)) (snd (customer_kv B x)) (customers st)\<rparr>) \<and>
         emails_owned B rows (tbl_put (fst (customer_kv B x)) (snd (customer_kv B x)) (customers st))"
proof -
  let ?k = "fst (customer_kv B x)" and ?r = "snd (customer_kv B x)"
  have kx: "csv_key B Customers x \<noteq> None" using x keyed by simp
  have em: "c_email ?r = csv_email B x" using kx by (rule csv_email_kv)
  have nc: "\<not> email_clash ?k ?r p" if "p \<in> set (customers st)" for p
    using own x that by (auto simp: emails_owned_def email_clash_def em)
  then have f1: "filter (email_clash ?k ?r) (customers st) = []"
    by (simp add: filter_empty_conv)
  have f2: "filter (\<lambda>p. \<not> email_clash ?k ?r p) (customers st) = customers st"
    using nc by (simp add: filter_id_conv)
  have 1: "put_row B Customers st x = Inr (st\<lparr>customers := tbl_put ?k ?r (customers st)\<rparr>)"
    by (simp add: put_row_Customers_keyed [OF kx] f1 f2)
  have 2: "emails_owned B rows (tbl_put ?k ?r (customers st))"
    unfolding emails_owned_def
  proof (intro ballI impI)
    fix y p
    assume y: "y \<in> set rows" and p: "p \<in> set (tbl_put ?k ?r (customers st))"
      and ne: "csv_email B y \<noteq> SqlNull" and eq: "c_email (snd p) = csv_email B y"
    from p consider "p = (?k, ?r)" | "p \<in> set (customers st)"
      by (auto simp: set_tbl_put)
    then show "fst p = fst (customer_kv B y)"
    proof cases
      case 1
      with eq em have "csv_email B y = csv_email B x" by simp
      with ap y x ne have "csv_key B Customers y = csv_key B Customers x"
        by (intro apartD [of B rows])
      moreover have "csv_key B Customers y \<noteq> None" using y keyed by simp
      ultimately have "fst (customer_kv B y) = ?k"
        using kx by (simp add: customer_kv_def)
      with 1 show ?thesis by simp
    next
      case 2
      with own y ne eq show ?thesis by (auto simp: emails_owned_def)
    qed
  qed
  from 1 2 show ?thesis ..
qed

lemma customers_owned_run:
  assumes sub: "set xs \<subseteq> set rows" and keyed: "\<forall>x\<in>set rows. csv_key B Customers x \<noteq> None"
    and ap: "apart B rows" and own: "emails_owned B rows (customers st)"
  shows "for_each (put_row B Customers) st xs =
           Inr (st\<lparr>customers := puts (map (customer_kv B) xs) (customers st)\<rparr>)"
  using sub own
proof (induction xs arbitrary: st)
  case Nil
  show ?case by (simp add: puts_def)
next
  case (Cons x xs)
  let ?st1 = "st\<lparr>customers := tbl_put (fst (customer_kv B x)) (snd (customer_kv B x)) (customers st)\<rparr>"
  have x: "x \<in> set rows" using Cons.prems(1) by simp
  from customers_owned_step [OF x keyed ap Cons.prems(2)]
  have 1: "put_row B Customers st x = Inr ?st1"
    and 2: "emails_owned B rows (customers ?st1)"
    by simp_all
  have "for_each (put_row B Customers) ?st1 xs =
          Inr (?st1\<lparr>customers := puts (map (customer_kv B) xs) (customers ?st1)\<rparr>)"
    using Cons.prems(1) 2 by (intro Cons.IH) auto
  with 1 show ?case by (simp add: puts_def)
qed

lemma map_of_filter_keep:
  assumes "distinct (map fst t)" "map_of t k = Some v" "P (k, v)"
  shows "map_of (filter P t) k = Some v"
proof -
  from assms(2) have "(k, v) \<in> set t" by (rule map_of_SomeD)
  with assms(3) have "(k, v) \<in> set (filter P t)" by simp
  moreover have "distinct (map fst (filter P t))"
    using assms(1) by (simp add: distinct_map_filter)
  ultimately show ?thesis by simp
qed

text \<open>What the load of \<^verbatim>\<open>customers.csv\<close> leaves, whatever it replaced on its way: a
  well-formed table that holds, under each key of the file, the last row of the file with
  that key, and in which the emails of the file are found under their own keys only.\<close>

lemma customers_first_run:
  assumes keyed: "\<forall>x\<in>set rows. csv_key B Customers x \<noteq> None" and ap: "apart B rows"
    and wf: "wf_tbl (customers st)"
  shows "set xs \<subseteq> set rows \<Longrightarrow> for_each (put_row B Customers) st xs = Inr st' \<Longrightarrow>
         wf_tbl (customers st') \<and>
         (\<forall>x\<in>set xs. map_of (customers st') (fst (customer_kv B x)) =
                        map_of (rev (map (customer_kv B) xs)) (fst (customer_kv B x))) \<and>
         emails_owned B xs (customers st')"
proof (induction xs arbitrary: st' rule: rev_induct)
  case Nil
  then show ?case using wf by (simp add: emails_owned_def)
next
  case (snoc x ys)
  let ?k = "fst (customer_kv B x)" and ?r = "snd (customer_kv B x)"
  from snoc.prems(2) obtain st1 where
    st1: "for_each (put_row B Customers) st ys = Inr st1" and
    step: "put_row B Customers st1 x = Inr st'"
    by (auto simp: for_each_append split: sum.splits)
  have sub: "set ys \<subseteq> set rows" and x: "x \<in> set rows" using snoc.prems(1) by auto
  from snoc.IH [OF sub st1] have
    wf1: "wf_tbl (customers st1)" and
    last1: "\<forall>y\<in>set ys. map_of (customers st1) (fst (customer_kv B y)) =
                        map_of (rev (map (customer_kv B) ys)) (fst (customer_kv B y))" and
    own1: "emails_owned B ys (customers st1)"
    by simp_all
  have kx: "csv_key B Customers x \<noteq> None" using x keyed by simp
  have em: "c_email ?r = csv_email B x" using kx by (rule csv_email_kv)
  let ?kept = "filter (\<lambda>p. \<not> email_clash ?k ?r p) (customers st1)"
  from step have c': "customers st' = tbl_put ?k ?r ?kept"
    by (simp add: put_row_Customers_keyed [OF kx])
  have a: "wf_tbl (customers st')"
    by (simp add: c' wf_tbl_put wf_tbl_filter wf1)
  have b: "map_of (customers st') (fst (customer_kv B y)) =
           map_of (rev (map (customer_kv B) (ys @ [x]))) (fst (customer_kv B y))"
    if y: "y \<in> set (ys @ [x])" for y
  proof (cases "fst (customer_kv B y) = ?k")
    case True
    then show ?thesis by (simp add: c' map_of_tbl_put)
  next
    case False
    with y have yy: "y \<in> set ys" by auto
    let ?ky = "fst (customer_kv B y)"
    have "?ky \<in> fst ` set (rev (map (customer_kv B) ys))" using yy by force
    then obtain v where v: "map_of (rev (map (customer_kv B) ys)) ?ky = Some v"
      by (meson domD domI map_of_eq_None_iff not_Some_eq)
    then have "(?ky, v) \<in> set (rev (map (customer_kv B) ys))" by (rule map_of_SomeD)
    then obtain z where z: "z \<in> set ys" "customer_kv B z = (?ky, v)" by auto
    have kz: "csv_key B Customers z \<noteq> None" using z(1) sub keyed by auto
    have ez: "c_email v = csv_email B z" using csv_email_kv [OF kz] z(2) by simp
    have keys: "csv_key B Customers x \<noteq> csv_key B Customers z"
      using False z(2) kx kz by (auto simp: key_kv)
    have zr: "z \<in> set rows" using z(1) sub by auto
    have "\<not> email_clash ?k ?r (?ky, v)"
    proof
      assume "email_clash ?k ?r (?ky, v)"
      then have "csv_email B x \<noteq> SqlNull" "csv_email B x = csv_email B z"
        by (simp_all add: email_clash_def em ez)
      from apartD [OF ap x zr this] keys show False by simp
    qed
    moreover have "map_of (customers st1) ?ky = Some v" using last1 yy v by simp
    ultimately have "map_of ?kept ?ky = Some v"
      using wf1 by (intro map_of_filter_keep) (simp_all add: wf_tbl_def)
    with False v show ?thesis by (simp add: c' map_of_tbl_put)
  qed
  have c: "emails_owned B (ys @ [x]) (customers st')"
    unfolding emails_owned_def
  proof (intro ballI impI)
    fix y p
    assume y: "y \<in> set (ys @ [x])" and p: "p \<in> set (customers st')"
      and ne: "csv_email B y \<noteq> SqlNull" and eq: "c_email (snd p) = csv_email B y"
    have yr: "y \<in> set rows" using y sub x by auto
    from p consider "p = (?k, ?r)" | "p \<in> set (customers st1)" "\<not> email_clash ?k ?r p"
      by (auto simp: c' set_tbl_put)
    then show "fst p = fst (customer_kv B y)"
    proof cases
      case 1
      with eq em have "csv_email B y = csv_email B x" by simp
      with ap yr x ne have "csv_key B Customers y = csv_key B Customers x"
        by (intro apartD [of B rows])
      moreover have "csv_key B Customers y \<noteq> None" using yr keyed by simp
      ultimately have "fst (customer_kv B y) = ?k"
        using kx by (simp add: customer_kv_def)
      with 1 show ?thesis by simp
    next
      case 2
      show ?thesis
      proof (cases "y = x")
        case True
        with 2(2) ne eq show ?thesis by (auto simp: email_clash_def em)
      next
        case False
        with y have "y \<in> set ys" by simp
        with own1 2(1) ne eq show ?thesis by (auto simp: emails_owned_def)
      qed
    qed
  qed
  from a b c show ?case by blast
qed

subsection \<open>The loop on the store\<close>

lemma load_table_rows_of:
  "(\<exists>s'. load_table B dir s t = Inr s' \<and> conn s' = st') \<longleftrightarrow>
   for_each (put_row B t) (conn s) (rows_of dir t) = Inr st'"
proof (cases "dir t")
  case None
  then show ?thesis by (auto simp: load_table_Inr_iff rows_of_def)
next
  case (Some rows)
  show ?thesis
  proof (cases "rows = []")
    case True
    with Some show ?thesis by (auto simp: load_table_Inr_iff rows_of_def)
  next
    case False
    show ?thesis
    proof
      assume "\<exists>s'. load_table B dir s t = Inr s' \<and> conn s' = st'"
      then obtain s' where "load_table B dir s t = Inr s'" "conn s' = st'" by blast
      with Some False show "for_each (put_row B t) (conn s) (rows_of dir t) = Inr st'"
        by (simp add: load_table_Inr_iff rows_of_def)
    next
      assume a: "for_each (put_row B t) (conn s) (rows_of dir t) = Inr st'"
      let ?s' = "\<lparr>conn = st', log = log s @ [Inserted t (length rows)]\<rparr>"
      from a Some False have "load_table B dir s t = Inr ?s'"
        by (simp add: load_table_Inr_iff rows_of_def)
      then show "\<exists>s'. load_table B dir s t = Inr s' \<and> conn s' = st'"
        by (intro exI [of _ ?s']) simp
    qed
  qed
qed

text \<open>The loop of \<^verbatim>\<open>ingest\<close> ends without an exception, in a given store, exactly when the
  loop on the store alone does.\<close>

lemma load_all_stores:
  "(fst (load_all B dir s ts) = None \<and> conn (snd (load_all B dir s ts)) = st') \<longleftrightarrow>
   load_stores B dir (conn s) ts = Inr st'"
proof (induction ts arbitrary: s)
  case Nil
  show ?case by (auto simp: load_stores_def)
next
  case (Cons t ts)
  show ?case
  proof (cases "load_table B dir s t")
    case (Inl e)
    have "\<not> (\<exists>s'. load_table B dir s t = Inr s' \<and> conn s' = st1)" for st1
      using Inl by simp
    then have "for_each (put_row B t) (conn s) (rows_of dir t) \<noteq> Inr st1" for st1
      by (simp only: load_table_rows_of) simp
    then have "\<exists>e. for_each (put_row B t) (conn s) (rows_of dir t) = Inl e"
      by (cases "for_each (put_row B t) (conn s) (rows_of dir t)") auto
    with Inl show ?thesis by (auto simp: load_stores_def)
  next
    case (Inr s1)
    then have "\<exists>s'. load_table B dir s t = Inr s' \<and> conn s' = conn s1" by simp
    then have 1: "for_each (put_row B t) (conn s) (rows_of dir t) = Inr (conn s1)"
      by (simp only: load_table_rows_of)
    from Cons.IH [of s1] Inr 1 show ?thesis by (simp add: load_stores_def)
  qed
qed

lemma load_stores_tables:
  "load_stores B dir st tables = Inr st' \<longleftrightarrow>
     (\<exists>a1 a2 a3 a4.
        for_each (put_row B Customers) st (rows_of dir Customers) = Inr a1 \<and>
        for_each (put_row B Products) a1 (rows_of dir Products) = Inr a2 \<and>
        for_each (put_row B Orders) a2 (rows_of dir Orders) = Inr a3 \<and>
        for_each (put_row B Order_items) a3 (rows_of dir Order_items) = Inr a4 \<and>
        for_each (put_row B Reviews) a4 (rows_of dir Reviews) = Inr st')"
  by (auto simp: load_stores_def tables_def split: sum.splits)

lemma keyed_rows:
  assumes "keyed B dir"
  shows "\<forall>x\<in>set (rows_of dir t). csv_key B t x \<noteq> None"
proof (cases "dir t")
  case None
  then show ?thesis by (simp add: rows_of_def)
next
  case (Some rows)
  have "t \<in> set tables" by (cases t) (simp_all add: tables_def)
  with assms have "case dir t of None \<Rightarrow> True
                   | Some rows \<Rightarrow> list_all (\<lambda>x. csv_key B t x \<noteq> None) rows"
    unfolding keyed_def list_all_iff by blast
  with Some show ?thesis by (simp add: rows_of_def list_all_iff)
qed

lemma emails_apart_rows:
  assumes "emails_apart B dir"
  shows "apart B (rows_of dir Customers)"
  using assms by (auto simp: emails_apart_def apart_def rows_of_def list_all_iff split: option.splits)

text \<open>The update of the totals, row by row.\<close>

lemma keys_update_totals [simp]: "map fst (orders (update_totals B st)) = map fst (orders st)"
  by (simp add: update_totals_def comp_def if_distrib cong: if_cong)

lemma wf_update_totals [simp]: "wf_tbl (orders (update_totals B st)) = wf_tbl (orders st)"
  by (simp add: wf_tbl_def)

lemma map_of_map_rows:
  "map_of (map (\<lambda>p. (fst p, g (fst p) (snd p))) t) k = map_option (g k) (map_of t k)"
  by (induction t) auto

lemma map_of_update_totals:
  "map_of (orders (update_totals B st)) k =
   map_option (\<lambda>r. if items_of st k \<noteq> [] then r\<lparr>o_total := items_total B st k\<rparr> else r)
     (map_of (orders st) k)"
proof -
  have "orders (update_totals B st) =
        map (\<lambda>p. (fst p, if items_of st (fst p) \<noteq> []
                           then (snd p)\<lparr>o_total := items_total B st (fst p)\<rparr> else snd p))
            (orders st)"
    by (simp add: update_totals_def if_distrib cong: if_cong)
  then show ?thesis
    using map_of_map_rows [where g = "\<lambda>k r. if items_of st k \<noteq> []
            then r\<lparr>o_total := items_total B st k\<rparr> else r" and t = "orders st" and k = k]
    by simp
qed

lemma items_of_orders_upd [simp]: "items_of (st\<lparr>orders := t\<rparr>) k = items_of st k"
  by (simp add: items_of_def)

lemma items_total_orders_upd [simp]: "items_total B (st\<lparr>orders := t\<rparr>) k = items_total B st k"
  by (simp add: items_total_def)

text \<open>Loading the orders of a file again over the updated table, and updating again, gives
  the updated table.\<close>

lemma update_load_update:
  assumes wf: "wf_tbl (orders st)" and o: "orders st = puts kvs t0"
  shows "orders (update_totals B (st\<lparr>orders := puts kvs (orders (update_totals B st))\<rparr>)) =
         orders (update_totals B st)"
proof (rule wf_tbl_eqI)
  show "wf_tbl (orders (update_totals B (st\<lparr>orders := puts kvs (orders (update_totals B st))\<rparr>)))"
    using wf by (simp add: wf_tbl_puts)
  show "wf_tbl (orders (update_totals B st))" using wf by simp
  show "map_of (orders (update_totals B (st\<lparr>orders := puts kvs (orders (update_totals B st))\<rparr>))) =
        map_of (orders (update_totals B st))"
  proof
    fix k
    let ?u = "\<lambda>r. if items_of st k \<noteq> [] then r\<lparr>o_total := items_total B st k\<rparr> else r"
    have uu: "?u (?u r) = ?u r" for r by simp
    show "map_of (orders (update_totals B (st\<lparr>orders := puts kvs (orders (update_totals B st))\<rparr>))) k =
          map_of (orders (update_totals B st)) k"
    proof (cases "map_of (rev kvs) k")
      case None
      then show ?thesis
        by (simp add: map_of_update_totals map_of_puts map_add_def option.map_comp comp_def
            cong: if_cong)
    next
      case (Some r)
      then show ?thesis
        by (simp add: map_of_update_totals map_of_puts map_add_def o)
    qed
  qed
qed

subsection \<open>A second run\<close>

lemma update_totals_orders_eq:
  "update_totals B st = st\<lparr>orders := orders (update_totals B st)\<rparr>"
  by (simp add: update_totals_def)

lemma products_update_totals [simp]: "products (update_totals B st) = products st"
  by (simp add: update_totals_def)

lemma reviews_update_totals [simp]: "reviews (update_totals B st) = reviews st"
  by (simp add: update_totals_def)

lemma puts_last_id:
  assumes wf: "wf_tbl t"
    and last: "\<forall>p\<in>set kvs. map_of t (fst p) = map_of (rev kvs) (fst p)"
  shows "puts kvs t = t"
proof (rule wf_tbl_eqI)
  show "wf_tbl (puts kvs t)" using wf by (rule wf_tbl_puts)
  show "wf_tbl t" by (rule wf)
  show "map_of (puts kvs t) = map_of t"
  proof
    fix k
    show "map_of (puts kvs t) k = map_of t k"
    proof (cases "map_of (rev kvs) k")
      case None
      then show ?thesis by (simp add: map_of_puts map_add_def)
    next
      case (Some v)
      then have "(k, v) \<in> set kvs" using map_of_SomeD [of "rev kvs" k v] by simp
      with last have "map_of t k = map_of (rev kvs) k" by force
      with Some show ?thesis by (simp add: map_of_puts map_add_def)
    qed
  qed
qed

text \<open>The loop on the store that a first run left, for a directory of keyed files.\<close>

lemma reload_stores:
  assumes keyed: "keyed B dir" and ap: "emails_apart B dir" and wf: "wf_store s0"
    and run: "load_stores B dir s0 tables = Inr a5"
  shows "\<exists>b. load_stores B dir (update_totals B a5) tables = Inr b \<and>
             update_totals B b = update_totals B a5"
proof -
  let ?rc = "rows_of dir Customers" and ?rp = "rows_of dir Products"
    and ?ro = "rows_of dir Orders" and ?ri = "rows_of dir Order_items"
    and ?rr = "rows_of dir Reviews"
  let ?kc = "map (customer_kv B) ?rc" and ?kp = "map (product_kv B) ?rp"
    and ?ko = "map (order_kv B) ?ro" and ?ki = "map (item_kv B) ?ri"
    and ?kr = "map (review_kv B) ?rr"
  note kc = keyed_rows [OF keyed, of Customers] and kp = keyed_rows [OF keyed, of Products]
    and ko = keyed_rows [OF keyed, of Orders] and ki = keyed_rows [OF keyed, of Order_items]
    and kr = keyed_rows [OF keyed, of Reviews]
  note apc = emails_apart_rows [OF ap]
  from run obtain a1 a2 a3 a4 where
    l1: "for_each (put_row B Customers) s0 ?rc = Inr a1" and
    l2: "for_each (put_row B Products) a1 ?rp = Inr a2" and
    l3: "for_each (put_row B Orders) a2 ?ro = Inr a3" and
    l4: "for_each (put_row B Order_items) a3 ?ri = Inr a4" and
    l5: "for_each (put_row B Reviews) a4 ?rr = Inr a5"
    by (auto simp: load_stores_tables)
  \<comment> \<open>the first run, table by table\<close>
  have f1: "products a1 = products s0" "orders a1 = orders s0"
      "order_items a1 = order_items s0" "reviews a1 = reviews s0"
    using put_rows_frame [OF l1] by simp_all
  have wf0: "wf_tbl (customers s0)" "wf_tbl (products s0)" "wf_tbl (orders s0)"
      "wf_tbl (order_items s0)" "wf_tbl (reviews s0)"
    using wf by (simp_all add: wf_store_def)
  from customers_first_run [OF kc apc wf0(1) subset_refl l1]
  have wfc: "wf_tbl (customers a1)"
    and lastc: "\<forall>x\<in>set ?rc. map_of (customers a1) (fst (customer_kv B x)) =
                   map_of (rev ?kc) (fst (customer_kv B x))"
    and ownc: "emails_owned B ?rc (customers a1)"
    by simp_all
  have a2: "a2 = a1\<lparr>products := puts ?kp (products a1)\<rparr>"
    using l2 by (simp add: load_products [OF kp])
  have fk3: "\<forall>x\<in>set ?ro. fk_ok (o_customer_id (snd (order_kv B x))) (customers a2)"
    and a3: "a3 = a2\<lparr>orders := puts ?ko (orders a2)\<rparr>"
    using l3 by (simp_all add: load_orders [OF ko])
  have fk4: "\<forall>x\<in>set ?ri. fk_ok (i_order_id (snd (item_kv B x))) (orders a3) \<and>
                            fk_ok (i_product_id (snd (item_kv B x))) (products a3)"
    and a4: "a4 = a3\<lparr>order_items := puts ?ki (order_items a3)\<rparr>"
    using l4 by (simp_all add: load_items [OF ki])
  have fk5: "\<forall>x\<in>set ?rr. fk_ok (v_product_id (snd (review_kv B x))) (products a4) \<and>
                            fk_ok (v_customer_id (snd (review_kv B x))) (customers a4)"
    and a5: "a5 = a4\<lparr>reviews := puts ?kr (reviews a4)\<rparr>"
    using l5 by (simp_all add: load_reviews [OF kr])
  let ?s1 = "update_totals B a5"
  have c5: "customers a5 = customers a1" "customers a4 = customers a1" "customers a2 = customers a1"
    by (simp_all add: a5 a4 a3 a2)
  have p5: "products a5 = puts ?kp (products s0)" "products a4 = puts ?kp (products s0)"
      "products a3 = puts ?kp (products s0)"
    by (simp_all add: a5 a4 a3 a2 f1)
  have o5: "orders a5 = puts ?ko (orders s0)" "orders a3 = puts ?ko (orders s0)"
    by (simp_all add: a5 a4 a3 a2 f1)
  have i5: "order_items a5 = puts ?ki (order_items s0)"
    by (simp add: a5 a4 a3 a2 f1)
  have r5: "reviews a5 = puts ?kr (reviews s0)"
    by (simp add: a5 a4 a3 a2 f1)
  \<comment> \<open>the second run\<close>
  have "emails_owned B ?rc (customers ?s1)" using ownc by (simp add: c5)
  from customers_owned_run [OF subset_refl kc apc this]
  have "for_each (put_row B Customers) ?s1 ?rc = Inr (?s1\<lparr>customers := puts ?kc (customers ?s1)\<rparr>)" .
  moreover have "puts ?kc (customers ?s1) = customers ?s1"
    using wfc lastc by (intro puts_last_id) (auto simp: c5)
  ultimately have m1: "for_each (put_row B Customers) ?s1 ?rc = Inr ?s1" by simp
  have "puts ?kp (products ?s1) = products ?s1"
    by (simp add: p5 puts_idem wf0)
  then have m2: "for_each (put_row B Products) ?s1 ?rp = Inr ?s1"
    by (simp add: load_products [OF kp])
  let ?b3 = "?s1\<lparr>orders := puts ?ko (orders ?s1)\<rparr>"
  have m3: "for_each (put_row B Orders) ?s1 ?ro = Inr ?b3"
    using fk3 by (simp add: load_orders [OF ko] c5)
  have keys3: "fst ` set (orders ?b3) = fst ` set (orders a3)"
  proof -
    have "fst ` set (orders ?s1) = fst ` set (orders a5)"
      by (simp only: set_map [symmetric] keys_update_totals)
    then show ?thesis by (auto simp: keys_puts o5)
  qed
  have "puts ?ki (order_items ?b3) = order_items ?b3"
    by (simp add: i5 puts_idem wf0)
  moreover have "\<forall>x\<in>set ?ri. fk_ok (i_order_id (snd (item_kv B x))) (orders ?b3) \<and>
                            fk_ok (i_product_id (snd (item_kv B x))) (products ?b3)"
    using fk4 fk_ok_keys [OF keys3] by (simp add: p5)
  ultimately have m4: "for_each (put_row B Order_items) ?b3 ?ri = Inr ?b3"
    by (simp add: load_items [OF ki])
  have "puts ?kr (reviews ?b3) = reviews ?b3"
    by (simp add: r5 puts_idem wf0)
  moreover have "\<forall>x\<in>set ?rr. fk_ok (v_product_id (snd (review_kv B x))) (products ?b3) \<and>
                            fk_ok (v_customer_id (snd (review_kv B x))) (customers ?b3)"
    using fk5 by (simp add: p5 c5)
  ultimately have m5: "for_each (put_row B Reviews) ?b3 ?rr = Inr ?b3"
    by (simp add: load_reviews [OF kr])
  have run2: "load_stores B dir ?s1 tables = Inr ?b3"
    unfolding load_stores_tables using m1 m2 m3 m4 m5 by blast
  \<comment> \<open>the second update\<close>
  have b3: "?b3 = a5\<lparr>orders := puts ?ko (orders ?s1)\<rparr>"
    by (simp add: update_totals_def)
  have "wf_tbl (orders a5)" by (simp add: o5 wf_tbl_puts wf0)
  from update_load_update [OF this o5(1), of B]
  have "orders (update_totals B ?b3) = orders ?s1" by (simp only: b3)
  then have "update_totals B ?b3 = ?s1"
    using update_totals_orders_eq [of B ?b3] update_totals_orders_eq [of B a5]
    by (simp add: b3)
  with run2 show ?thesis by blast
qed

lemma conn_open_db_keep: "conn (open_db (Some st) False) = st"
  by (simp add: open_db_def)

lemma report_ingest_ok:
  "failure (ingest B dir dbf rep w) = None \<Longrightarrow>
   report (ingest B dir dbf rep w) =
     (if w then Some (ltv_query B (db (ingest B dir dbf rep w))) else None)"
  by (cases "load_all B dir (open_db dbf rep) tables")
     (auto simp: ingest_def Let_def split: option.splits)

text \<open>
  Claim C3, as amended. Let every row of every file carry an integer primary key, and let no
  two rows of \<^verbatim>\<open>customers.csv\<close> have different keys and the same email. If a run on a
  well-formed store completes, then a second run on the same files and on the store that the
  first run left completes too, and it leaves that store as it is, table by table and row by
  row: nothing is duplicated and no key changes. The report, if asked for, is the same.
\<close>

theorem reingest_idempotent:
  assumes keyed: "keyed B dir" and ap: "emails_apart B dir"
    and wf: "wf_store (conn (open_db dbf rep))"
    and ok: "failure (ingest B dir dbf rep w) = None"
  shows "failure (ingest B dir (Some (db (ingest B dir dbf rep w))) False w) = None \<and>
         db (ingest B dir (Some (db (ingest B dir dbf rep w))) False w) =
           db (ingest B dir dbf rep w) \<and>
         report (ingest B dir (Some (db (ingest B dir dbf rep w))) False w) =
           report (ingest B dir dbf rep w)"
proof -
  let ?s0 = "open_db dbf rep"
  let ?a5 = "conn (snd (load_all B dir ?s0 tables))"
  let ?s1 = "db (ingest B dir dbf rep w)"
  let ?t0 = "open_db (Some ?s1) False"
  from ok have "fst (load_all B dir ?s0 tables) = None" by (simp add: failure_ingest)
  then have run: "load_stores B dir (conn ?s0) tables = Inr ?a5"
    using load_all_stores [of B dir ?s0 tables ?a5] by simp
  have s1: "?s1 = update_totals B ?a5" using ok by (rule db_ingest_ok)
  from reload_stores [OF keyed ap wf run] obtain b where
    b: "load_stores B dir (update_totals B ?a5) tables = Inr b"
       "update_totals B b = update_totals B ?a5"
    by blast
  have "load_stores B dir (conn ?t0) tables = Inr b"
    using b(1) by (simp add: conn_open_db_keep s1)
  then have l2: "fst (load_all B dir ?t0 tables) = None"
      "conn (snd (load_all B dir ?t0 tables)) = b"
    using load_all_stores [of B dir ?t0 tables b] by simp_all
  have ok2: "failure (ingest B dir (Some ?s1) False w) = None"
    using l2(1) by (simp add: failure_ingest)
  have db2: "db (ingest B dir (Some ?s1) False w) = ?s1"
    using db_ingest_ok [OF ok2] l2(2) b(2) s1 by simp
  have "report (ingest B dir (Some ?s1) False w) = report (ingest B dir dbf rep w)"
    unfolding report_ingest_ok [OF ok2] report_ingest_ok [OF ok] by (simp only: db2)
  with ok2 db2 show ?thesis by simp
qed

lemma shop_keyed: "keyed lit_builtins shop_dir"
  by code_simp

lemma shop_emails_apart: "emails_apart lit_builtins shop_dir"
  by code_simp

theorem reingest_idempotent_witness:
  "keyed lit_builtins shop_dir \<and> emails_apart lit_builtins shop_dir \<and>
   failure (ingest lit_builtins shop_dir None False True) = None \<and>
   failure (ingest lit_builtins shop_dir
              (Some (db (ingest lit_builtins shop_dir None False True))) False True) = None \<and>
   db (ingest lit_builtins shop_dir
         (Some (db (ingest lit_builtins shop_dir None False True))) False True) =
     db (ingest lit_builtins shop_dir None False True)"
proof -
  have wf: "wf_store (conn (open_db None False))"
    by (simp add: open_db_def empty_store_def wf_store_def wf_tbl_def)
  from reingest_idempotent [OF shop_keyed shop_emails_apart wf shop_ok]
  show ?thesis using shop_keyed shop_emails_apart shop_ok by simp
qed

text \<open>
  Claim C3 as stated fails on a file without its key column: \<^verbatim>\<open>row.get(c, None)\<close> binds
  NULL, SQLite gives the row a fresh rowid, and every run adds the rows of the file again.
\<close>

theorem reingest_counterexample:
  "failure (ingest lit_builtins nokey_dir None False False) = None \<and>
   map fst (products (db (ingest lit_builtins nokey_dir None False False))) = [1] \<and>
   failure (ingest lit_builtins nokey_dir
              (Some (db (ingest lit_builtins nokey_dir None False False))) False False) = None \<and>
   map fst (products (db (ingest lit_builtins nokey_dir
              (Some (db (ingest lit_builtins nokey_dir None False False))) False False))) = [1, 2]"
  by code_simp

text \<open>
  The condition on the emails is needed as well. With two customers of the same email the
  first run keeps the second only; in the second run the first customer replaces the
  second, whom an order references, and the foreign key aborts the run.
\<close>

lemma shared_email_example:
  "failure (ingest lit_builtins shared_email_dir None False False) = None \<and>
   failure (ingest lit_builtins shared_email_dir
              (Some (db (ingest lit_builtins shared_email_dir None False False))) False False) =
     Some ForeignKeyFailed"
  by code_simp

end
